theory Spec2Isabelle
  imports Main "HOL-Library.Word"
begin

section \<open>Errors and results\<close>

text \<open>
  Go errors as values. \<open>NotFoundErr\<close> is an API error for which
  \<open>k8serrors.IsNotFound\<close> holds, \<open>OtherErr\<close> any other error of a collaborator.
  \<open>GetError\<close> is the reconciler's \<open>&getError{err, controller, req}\<close>,
  \<open>Wrapf\<close> is \<open>fmt.Errorf("<msg>: %w", err)\<close>, \<open>ErrorfQ\<close> is
  \<open>fmt.Errorf("<msg>%q", s)\<close> and \<open>ErrorMsg\<close> is \<open>fmt.Errorf("<msg>")\<close>.
\<close>

type_synonym Request = "string \<times> string"

datatype error =
    NotFoundErr
  | OtherErr string
  | GetError error string Request
  | Wrapf string error
  | ErrorfQ string string
  | ErrorMsg string

text \<open>\<open>ctrl.Result\<close>; its zero value \<open>ctrl.Result{}\<close> requests no requeue.\<close>

record Result =
  Requeue :: bool
  RequeueAfter :: int

definition Result_zero :: Result where
  "Result_zero = \<lparr>Requeue = False, RequeueAfter = 0\<rparr>"

section \<open>The VMRule reconciler\<close>

subsection \<open>Objects\<close>

text \<open>
  \<open>metav1.Time\<close> as the offset from the zero time instant. A deletion timestamp is a
  pointer: \<open>None\<close> is nil. \<open>(*Time).IsZero\<close> holds of nil and of the zero instant.
\<close>

type_synonym Time = int

fun Time_IsZero :: "Time option \<Rightarrow> bool" where
  "Time_IsZero None = True"
| "Time_IsZero (Some t) = (t = 0)"

record ObjectMeta =
  Name :: string
  Namespace :: string
  Labels :: "(string \<times> string) list"
  DeletionTimestamp :: "Time option"

datatype LabelSelector = LabelSelector (MatchLabels: "(string \<times> string) list")

record VMAlertSpec =
  ParsingError :: string
  SelectAllByDefault :: bool
  RuleSelector :: "LabelSelector option"
  RuleNamespaceSelector :: "LabelSelector option"

record VMRule =
  rule_meta :: ObjectMeta

record VMAlert =
  alert_meta :: ObjectMeta
  Spec :: VMAlertSpec

subsection \<open>Collaborators and observable calls\<close>

text \<open>
  Every call that leaves \<open>Reconcile\<close> is recorded, in order. The cluster (and the rate
  limiter's counter) is an abstract world \<open>'w\<close>: reads see it, the rate limiter and the
  materializer \<open>vmalert.CreateOrUpdateRuleConfigMaps\<close> change it.
\<close>

datatype event =
    EvGet Request
  | EvRegisterObjectStat VMRule string
  | EvMustThrottleReconcile
  | EvListObjectsByNamespace
  | EvMatch VMRule VMAlert
  | EvLogError error string
  | EvMaterialize VMRule VMAlert

record 'w Env =
  Get :: "'w \<Rightarrow> Request \<Rightarrow> error + VMRule"
  MustThrottleReconcile :: "'w \<Rightarrow> bool \<times> 'w"
  ListObjectsByNamespace :: "'w \<Rightarrow> error + VMAlert list"
  isSelectorsMatchesTargetCRD ::
    "'w \<Rightarrow> VMRule \<Rightarrow> VMAlert \<Rightarrow> LabelSelector option \<Rightarrow> LabelSelector option \<Rightarrow> error + bool"
  CreateOrUpdateRuleConfigMaps :: "'w \<Rightarrow> VMAlert \<Rightarrow> error option \<times> 'w"

type_synonym 'w rstate = "'w \<times> event list"

subsection \<open>The loop over the candidate parents\<close>

text \<open>
  One iteration of \<open>for _, vmalertItem := range objects.Items\<close>: \<open>Next\<close> is
  \<open>continue\<close> or falling through to the next item, \<open>Abort\<close> is the \<open>return\<close>
  after a materializer failure.
\<close>

datatype item_outcome = Next | Abort error

definition materialize_item ::
  "'w Env \<Rightarrow> VMRule \<Rightarrow> VMAlert \<Rightarrow> 'w rstate \<Rightarrow> item_outcome \<times> 'w rstate" where
  "materialize_item env instance currVMAlert st =
     (case st of (w, tr) \<Rightarrow>
        (case CreateOrUpdateRuleConfigMaps env w currVMAlert of
           (Some err, w') \<Rightarrow>
             (Abort (Wrapf ''cannot update rules configmaps'' err),
              (w', tr @ [EvMaterialize instance currVMAlert]))
         | (None, w') \<Rightarrow> (Next, (w', tr @ [EvMaterialize instance currVMAlert]))))"

definition reconcile_item ::
  "'w Env \<Rightarrow> VMRule \<Rightarrow> VMAlert \<Rightarrow> 'w rstate \<Rightarrow> item_outcome \<times> 'w rstate" where
  "reconcile_item env instance vmalertItem st =
     (case st of (w, tr) \<Rightarrow>
        if DeletionTimestamp (alert_meta vmalertItem) \<noteq> None
           \<or> ParsingError (Spec vmalertItem) \<noteq> ''''
        then (Next, (w, tr))
        else if Time_IsZero (DeletionTimestamp (rule_meta instance))
                \<and> \<not> SelectAllByDefault (Spec vmalertItem)
        then
          (case isSelectorsMatchesTargetCRD env w instance vmalertItem
                  (RuleSelector (Spec vmalertItem)) (RuleNamespaceSelector (Spec vmalertItem)) of
             Inl err \<Rightarrow>
               (Next, (w, tr @ [EvMatch instance vmalertItem,
                                EvLogError err ''cannot match vmalert and vmRule'']))
           | Inr match \<Rightarrow>
               if \<not> match then (Next, (w, tr @ [EvMatch instance vmalertItem]))
               else materialize_item env instance vmalertItem
                      (w, tr @ [EvMatch instance vmalertItem]))
        else materialize_item env instance vmalertItem (w, tr))"

fun reconcile_items ::
  "'w Env \<Rightarrow> VMRule \<Rightarrow> VMAlert list \<Rightarrow> 'w rstate \<Rightarrow> (Result \<times> error option) \<times> 'w rstate" where
  "reconcile_items env instance [] st = ((Result_zero, None), st)"
| "reconcile_items env instance (vmalertItem # items) st =
     (case reconcile_item env instance vmalertItem st of
        (Next, st') \<Rightarrow> reconcile_items env instance items st'
      | (Abort err, st') \<Rightarrow> ((Result_zero, Some err), st'))"

subsection \<open>Reconcile\<close>

text \<open>
  The body of \<open>Reconcile\<close> up to its \<open>return\<close> statements. The named result
  \<open>result\<close> is never assigned in the body, so \<open>return result, ...\<close> and the bare
  \<open>return\<close> give \<open>ctrl.Result{}\<close>.
\<close>

definition Reconcile_body ::
  "'w Env \<Rightarrow> Request \<Rightarrow> 'w \<Rightarrow> (Result \<times> error option) \<times> 'w rstate" where
  "Reconcile_body env req w =
     (case Get env w req of
        Inl err \<Rightarrow> ((Result_zero, Some (GetError err ''vmrule'' req)), (w, [EvGet req]))
      | Inr instance \<Rightarrow>
          (case MustThrottleReconcile env w of
             (throttled, w1) \<Rightarrow>
               let tr = [EvGet req, EvRegisterObjectStat instance ''vmrule'',
                         EvMustThrottleReconcile]
               in if throttled then ((Result_zero, None), (w1, tr))
                  else
                    (case ListObjectsByNamespace env w1 of
                       Inl err \<Rightarrow>
                         ((Result_zero, Some (Wrapf ''cannot list vmauths for vmuser'' err)),
                          (w1, tr @ [EvListObjectsByNamespace]))
                     | Inr items \<Rightarrow>
                         reconcile_items env instance items
                           (w1, tr @ [EvListObjectsByNamespace]))))"

text \<open>
  Modelled from the spec: \<open>handleReconcileErr\<close>, which the deferred function of
  \<open>Reconcile\<close> applies to the returned pair, is not among the sources. The spec's error
  taxonomy fixes what it does: a not-found failure of the fetch is terminal success (no
  error, no requeue), every other failure (get, list, materialize) is surfaced as the
  error of the reconcile, and a successful return is passed on as it is.
\<close>

fun handleReconcileErr :: "Result \<Rightarrow> error option \<Rightarrow> Result \<times> error option" where
  "handleReconcileErr originResult None = (originResult, None)"
| "handleReconcileErr originResult (Some (GetError NotFoundErr controller req)) =
     (originResult, None)"
| "handleReconcileErr originResult (Some err) = (originResult, Some err)"

definition Reconcile ::
  "'w Env \<Rightarrow> Request \<Rightarrow> 'w \<Rightarrow> (Result \<times> error option) \<times> 'w rstate" where
  "Reconcile env req w =
     (case Reconcile_body env req w of
        ((result, err), st) \<Rightarrow> (handleReconcileErr result err, st))"

subsection \<open>Vocabulary of the properties\<close>

text \<open>A candidate parent the loop does not skip at its first check.\<close>

definition eligible :: "VMAlert \<Rightarrow> bool" where
  "eligible c = (DeletionTimestamp (alert_meta c) = None \<and> ParsingError (Spec c) = '''')"

fun is_match_ev :: "event \<Rightarrow> bool" where
  "is_match_ev (EvMatch i c) = True"
| "is_match_ev _ = False"

fun is_materialize_ev :: "event \<Rightarrow> bool" where
  "is_materialize_ev (EvMaterialize i c) = True"
| "is_materialize_ev _ = False"

fun is_list_ev :: "event \<Rightarrow> bool" where
  "is_list_ev EvListObjectsByNamespace = True"
| "is_list_ev _ = False"

text \<open>The candidate a selector evaluation or a materializer call is made for.\<close>

fun ev_candidate :: "event \<Rightarrow> VMAlert option" where
  "ev_candidate (EvMatch i c) = Some c"
| "ev_candidate (EvMaterialize i c) = Some c"
| "ev_candidate _ = None"

text \<open>
  The world that a sequence of recorded calls leaves behind: only the rate limiter and
  the materializer change it, each call in the order recorded.
\<close>

fun replay :: "'w Env \<Rightarrow> event list \<Rightarrow> 'w \<Rightarrow> 'w" where
  "replay env [] w = w"
| "replay env (EvMaterialize i c # es) w =
     replay env es (snd (CreateOrUpdateRuleConfigMaps env w c))"
| "replay env (EvMustThrottleReconcile # es) w =
     replay env es (snd (MustThrottleReconcile env w))"
| "replay env (e # es) w = replay env es w"

subsection \<open>A concrete cluster for evaluation\<close>

definition demo_meta :: "string \<Rightarrow> (string \<times> string) list \<Rightarrow> Time option \<Rightarrow> ObjectMeta" where
  "demo_meta n ls d = \<lparr>Name = n, Namespace = ''ns1'', Labels = ls, DeletionTimestamp = d\<rparr>"

definition demo_rule :: "Time option \<Rightarrow> VMRule" where
  "demo_rule d = \<lparr>rule_meta = demo_meta ''r1'' [(''team'', ''y'')] d\<rparr>"

definition demo_alert ::
  "string \<Rightarrow> Time option \<Rightarrow> string \<Rightarrow> bool \<Rightarrow> (string \<times> string) list \<Rightarrow> VMAlert" where
  "demo_alert n d pe sel_all sel =
     \<lparr>alert_meta = demo_meta n [] d,
      Spec = \<lparr>ParsingError = pe, SelectAllByDefault = sel_all,
              RuleSelector = Some (LabelSelector sel),
              RuleNamespaceSelector = None\<rparr>\<rparr>"

text \<open>
  The demo world is the list of parents whose derived objects were written, newest
  first. The demo matcher fails on an empty label set (standing for a malformed selector)
  and otherwise asks for every selector label on the rule. The materializer fails for the
  parents named in \<open>failing\<close>.
\<close>

definition demo_env ::
  "VMRule \<Rightarrow> bool \<Rightarrow> VMAlert list \<Rightarrow> string list \<Rightarrow> string list Env" where
  "demo_env r throttled items failing =
     \<lparr>Get = (\<lambda>w req. if req = (''ns1'', ''r1'') then Inr r else Inl NotFoundErr),
      MustThrottleReconcile = (\<lambda>w. (throttled, w)),
      ListObjectsByNamespace = (\<lambda>w. Inr items),
      isSelectorsMatchesTargetCRD = (\<lambda>w i c sel nssel.
        case sel of
          None \<Rightarrow> Inr True
        | Some s \<Rightarrow>
            if MatchLabels s = [] then Inl (OtherErr ''malformed selector'')
            else Inr (list_all (\<lambda>l. l \<in> set (Labels (rule_meta i))) (MatchLabels s))),
      CreateOrUpdateRuleConfigMaps = (\<lambda>w c.
        if Name (alert_meta c) \<in> set failing then (Some (OtherErr ''write failed''), w)
        else (None, Name (alert_meta c) # w))\<rparr>"

section \<open>The manager\<close>

subsection \<open>Flags and the outcomes of the calls made at startup\<close>

text \<open>
  The command-line flags that \<open>RunManager\<close> branches on, after parsing. The
  collaborators of \<open>RunManager\<close> (the controller runtime, the API clients) are given
  by the outcome of each call: \<open>None\<close> is a nil error. \<open>GetConfigOrDie\<close> is
  \<open>False\<close> when \<open>ctrl.GetConfigOrDie\<close> exits the process. Logging, metrics
  registration and the loading of the base configuration are left out.
\<close>

record Flags =
  version :: bool
  printDefaults :: bool
  enableWebhooks :: bool
  disableCRDOwnership :: bool
  tlsEnable :: bool
  mtlsEnable :: bool
  mtlsCAFile :: string
  disableCacheForObjects :: string

record StartupEnv =
  PrintDefaults :: "error option"
  MustGetWatchNamespaces :: "string list"
  GetConfigOrDie :: bool
  NewManager :: "error option"
  AddReadyzCheck :: "error option"
  AddHealthzCheck :: "error option"
  client_New :: "error option"
  Init :: "error option"
  webhook_Complete :: "string \<Rightarrow> error option"
  SetupWithManager :: "string \<Rightarrow> error option"
  NewForConfig :: "error option"
  ServerVersion :: "error option"
  SetKubernetesVersionWithDefaults :: "error option"
  NewWithWatch :: "error option"
  NewConverterController :: "error option"
  mgr_Add :: "error option"
  mgr_Start :: "error option"

subsection \<open>getClientCacheOptions\<close>

text \<open>
  \<open>strings.Split(s, ",")\<close> for a one-byte separator: the substrings between the
  separators, so that \<open>n\<close> separators give \<open>n + 1\<close> entries, empty ones included.
\<close>

fun Split :: "string \<Rightarrow> char \<Rightarrow> string list" where
  "Split [] sep = [[]]"
| "Split (ch # s) sep =
     (if ch = sep then [] # Split s sep
      else (case Split s sep of
              [] \<Rightarrow> [[ch]]
            | entry # entries \<Rightarrow> (ch # entry) # entries))"

datatype ClientObject = Secret | ConfigMap | Namespace_obj | Pod | Deployment | StatefulSet

definition cacheClientObjectsByName :: "string \<rightharpoonup> ClientObject" where
  "cacheClientObjectsByName =
     map_of [(''secret'', Secret), (''configmap'', ConfigMap), (''namespace'', Namespace_obj),
             (''pod'', Pod), (''deployment'', Deployment), (''statefulset'', StatefulSet)]"

record CacheOptions =
  DisableFor :: "ClientObject list"

text \<open>The loop over the entries: \<open>co\<close> is the accumulated \<open>co.DisableFor\<close>.\<close>

fun disable_objects :: "string list \<Rightarrow> ClientObject list \<Rightarrow> error + ClientObject list" where
  "disable_objects [] co = Inr co"
| "disable_objects (object # objects) co =
     (case cacheClientObjectsByName object of
        None \<Rightarrow> Inl (ErrorfQ ''not supported client object name='' object)
      | Some obj \<Rightarrow> disable_objects objects (co @ [obj]))"

definition getClientCacheOptions :: "string \<Rightarrow> error + CacheOptions" where
  "getClientCacheOptions disabledCacheObjects =
     (if length disabledCacheObjects > 0
      then (case disable_objects (Split disabledCacheObjects CHR '','') [] of
              Inl err \<Rightarrow> Inl err
            | Inr co \<Rightarrow> Inr \<lparr>DisableFor = co\<rparr>)
      else Inr \<lparr>DisableFor = []\<rparr>)"

subsection \<open>configureTLS\<close>

text \<open>
  The result is the list of TLS option functions, or the panic. An option function only
  runs when the metrics server builds its TLS configuration, so it is kept as data: the
  client-certificate requirement with the CA file name it will read.
\<close>

datatype tls_opt = RequireAndVerifyClientCert string

definition configureTLS :: "Flags \<Rightarrow> string + tls_opt list" where
  "configureTLS f =
     (if mtlsEnable f then
        (if \<not> tlsEnable f then Inl ''-tls.enable flag must be set before using mtls.enable''
         else Inr ([] @ [RequireAndVerifyClientCert (mtlsCAFile f)]))
      else Inr [])"

subsection \<open>RunManager\<close>

text \<open>How \<open>RunManager\<close> ends, and the calls it makes, in order.\<close>

datatype ending = Return "error option" | Exit int | Panic string

datatype sevent =
    SPrintVersion
  | SPrintDefaults
  | SGetConfigOrDie
  | SNewManager CacheOptions "tls_opt list"
  | SAddReadyzCheck
  | SAddHealthzCheck
  | SOwnershipClientNew
  | SOwnershipInit
  | SWebhookComplete string
  | SSetupWithManager string
  | SNewForConfig
  | SServerVersion
  | SSetKubernetesVersion
  | SNewWithWatch
  | SNewConverterController
  | SAddRunnable
  | SStartManager

text \<open>
  A step either ends the run (\<open>Inl\<close>: how, and the calls made) or goes on with the
  calls made so far. \<open>call\<close> is a call whose error, wrapped, is returned from
  \<open>RunManager\<close>.
\<close>

type_synonym progress = "(ending \<times> sevent list) + sevent list"

definition call :: "sevent \<Rightarrow> error option \<Rightarrow> (error \<Rightarrow> error) \<Rightarrow> sevent list \<Rightarrow> progress" where
  "call ev res wrap tr =
     (case res of
        Some err \<Rightarrow> Inl (Return (Some (wrap err)), tr @ [ev])
      | None \<Rightarrow> Inr (tr @ [ev]))"

definition andThen :: "progress \<Rightarrow> (sevent list \<Rightarrow> progress) \<Rightarrow> progress" where
  "andThen p f = (case p of Inl t \<Rightarrow> Inl t | Inr tr \<Rightarrow> f tr)"

text \<open>Lines 180 to 238: the manager and its two probes.\<close>

definition create_manager ::
  "StartupEnv \<Rightarrow> CacheOptions \<Rightarrow> tls_opt list \<Rightarrow> sevent list \<Rightarrow> progress" where
  "create_manager env co tlsOpts tr =
     andThen (call (SNewManager co tlsOpts) (NewManager env) id tr) (\<lambda>tr.
     andThen (call SAddReadyzCheck (AddReadyzCheck env)
                (Wrapf ''cannot register ready endpoint'') tr) (\<lambda>tr.
     call SAddHealthzCheck (AddHealthzCheck env) (Wrapf ''cannot register health endpoint'') tr))"

text \<open>Lines 240 to 250: the CRD ownership bootstrap.\<close>

definition ownership_bootstrap :: "Flags \<Rightarrow> StartupEnv \<Rightarrow> sevent list \<Rightarrow> progress" where
  "ownership_bootstrap f env tr =
     (if \<not> disableCRDOwnership f \<and> length (MustGetWatchNamespaces env) = 0 then
        andThen (call SOwnershipClientNew (client_New env) id tr) (\<lambda>tr.
        call SOwnershipInit (Init env) id tr)
      else Inr tr)"

text \<open>\<open>addWebhooks\<close>: one registration for each object, in order, until one fails.\<close>

definition webhook_objects :: "string list" where
  "webhook_objects =
     [''VMAgent'', ''VMAlert'', ''VMSingle'', ''VMCluster'', ''VLogs'', ''VMAlertmanager'',
      ''VMAlertmanagerConfig'', ''VMAuth'', ''VMUser'', ''VMRule'']"

fun addWebhooks :: "StartupEnv \<Rightarrow> string list \<Rightarrow> sevent list \<Rightarrow> progress" where
  "addWebhooks env [] tr = Inr tr"
| "addWebhooks env (obj # objs) tr =
     (case webhook_Complete env obj of
        Some err \<Rightarrow> Inl (Return (Some err), tr @ [SWebhookComplete obj])
      | None \<Rightarrow> addWebhooks env objs (tr @ [SWebhookComplete obj]))"

text \<open>
  Lines 260 to 397: the per-kind reconcilers, each registered with
  \<open>SetupWithManager\<close>, in the order of the source; the first failure is returned.
\<close>

definition controllers :: "string list" where
  "controllers =
     [''VMAgent'', ''VMAlert'', ''VMAlertmanager'', ''VMPodScrape'', ''VMRule'',
      ''VMServiceScrape'', ''VMSingle'', ''VLogs'', ''VMCluster'', ''VMProbe'',
      ''VMNodeScrape'', ''VMStaticScrape'', ''VMScrapeConfig'', ''VMAuth'', ''VMUser'',
      ''VMAlertmanagerConfig'']"

fun register_controllers :: "StartupEnv \<Rightarrow> string list \<Rightarrow> sevent list \<Rightarrow> progress" where
  "register_controllers env [] tr = Inr tr"
| "register_controllers env (kind # kinds) tr =
     (case SetupWithManager env kind of
        Some err \<Rightarrow> Inl (Return (Some err), tr @ [SSetupWithManager kind])
      | None \<Rightarrow> register_controllers env kinds (tr @ [SSetupWithManager kind]))"

text \<open>
  Lines 399 to 440: the converter and the start of the manager. A failure of
  \<open>SetKubernetesVersionWithDefaults\<close> is logged and ignored.
\<close>

definition start_manager :: "StartupEnv \<Rightarrow> sevent list \<Rightarrow> ending \<times> sevent list" where
  "start_manager env tr =
     (case
        andThen (call SNewForConfig (NewForConfig env) id tr) (\<lambda>tr.
        andThen (call SServerVersion (ServerVersion env)
                   (Wrapf ''cannot get kubernetes server version'') tr) (\<lambda>tr.
        andThen (Inr (tr @ [SSetKubernetesVersion])) (\<lambda>tr.
        andThen (call SNewWithWatch (NewWithWatch env) (Wrapf ''cannot setup watch client'') tr) (\<lambda>tr.
        andThen (call SNewConverterController (NewConverterController env) id tr) (\<lambda>tr.
        andThen (call SAddRunnable (mgr_Add env) id tr) (\<lambda>tr.
        call SStartManager (mgr_Start env) id tr))))))
      of Inl t \<Rightarrow> t
       | Inr tr \<Rightarrow> (Return None, tr))"

text \<open>Lines 252 to 440: webhooks, the reconcilers, the converter and the start.\<close>

definition register_and_start :: "Flags \<Rightarrow> StartupEnv \<Rightarrow> sevent list \<Rightarrow> ending \<times> sevent list" where
  "register_and_start f env tr =
     (case
        andThen (if enableWebhooks f then addWebhooks env webhook_objects tr else Inr tr) (\<lambda>tr.
        register_controllers env controllers tr)
      of Inl t \<Rightarrow> t
       | Inr tr \<Rightarrow> start_manager env tr)"

text \<open>Lines 180 to 440: everything from the creation of the manager on.\<close>

definition run_registered ::
  "Flags \<Rightarrow> StartupEnv \<Rightarrow> CacheOptions \<Rightarrow> tls_opt list \<Rightarrow> sevent list \<Rightarrow> ending \<times> sevent list" where
  "run_registered f env co tlsOpts tr =
     (case andThen (create_manager env co tlsOpts tr) (ownership_bootstrap f env) of
        Inl t \<Rightarrow> t
      | Inr tr \<Rightarrow> register_and_start f env tr)"

definition RunManager :: "Flags \<Rightarrow> StartupEnv \<Rightarrow> ending \<times> sevent list" where
  "RunManager f env =
     (if version f then (Exit 0, [SPrintVersion])
      else if printDefaults f then
        (case PrintDefaults env of
           Some err \<Rightarrow> (Exit 1, [SPrintDefaults])
         | None \<Rightarrow> (Return None, [SPrintDefaults]))
      else if \<not> GetConfigOrDie env then (Exit 1, [SGetConfigOrDie])
      else
        (case getClientCacheOptions (disableCacheForObjects f) of
           Inl err \<Rightarrow>
             (Return (Some (Wrapf ''cannot build cache options for manager'' err)),
              [SGetConfigOrDie])
         | Inr co \<Rightarrow>
             (case configureTLS f of
                Inl msg \<Rightarrow> (Panic msg, [SGetConfigOrDie])
              | Inr tlsOpts \<Rightarrow> run_registered f env co tlsOpts [SGetConfigOrDie])))"

subsection \<open>The readiness check\<close>

text \<open>
  The closure given to \<open>AddReadyzCheck\<close>, over the package variable
  \<open>wasCacheSynced\<close> (a \<open>uint32\<close>, initially 0). \<open>ok\<close> is what
  \<open>WaitForCacheSync\<close> answers within its ten seconds if this invocation calls it.
  The atomic load and store and the wait are recorded.
\<close>

datatype rz_event = RzLoad | RzWaitForCacheSync | RzStore "32 word"

type_synonym rz_state = "32 word \<times> rz_event list"

definition readyz_check :: "bool \<Rightarrow> rz_state \<Rightarrow> error option \<times> rz_state" where
  "readyz_check ok st =
     (case st of (wasCacheSynced, tr) \<Rightarrow>
        let wasSynced = wasCacheSynced in
        if wasSynced > 0 then (None, (wasCacheSynced, tr @ [RzLoad]))
        else if ok then (None, (1, tr @ [RzLoad, RzWaitForCacheSync, RzStore 1]))
        else (Some (ErrorMsg ''controller sync cache in progress''),
              (wasCacheSynced, tr @ [RzLoad, RzWaitForCacheSync])))"

text \<open>Successive probes, one after the other; the results are in the order of the probes.\<close>

fun readyz_checks :: "bool list \<Rightarrow> rz_state \<Rightarrow> error option list \<times> rz_state" where
  "readyz_checks [] st = ([], st)"
| "readyz_checks (ok # oks) st =
     (case readyz_check ok st of
        (res, st') \<Rightarrow> (case readyz_checks oks st' of (ress, st'') \<Rightarrow> (res # ress, st'')))"

fun is_store :: "rz_event \<Rightarrow> bool" where
  "is_store (RzStore v) = True"
| "is_store _ = False"

text \<open>
  Probes that overlap. A probe is at one of the points of the closure: before its load
  (\<open>Idle\<close>, with the answer the cache would give it), after the load of
  \<open>wasCacheSynced\<close> into \<open>wasSynced\<close>, after \<open>WaitForCacheSync\<close>, or
  returned. \<open>probe_step\<close> is the next atomic step of one probe on the shared flag;
  a schedule names the probe that moves next.
\<close>

datatype probe = Idle bool | Loaded "32 word" bool | Waited bool | Finished "error option"

fun probe_step :: "32 word \<Rightarrow> probe \<Rightarrow> 32 word \<times> probe" where
  "probe_step wasCacheSynced (Idle ok) = (wasCacheSynced, Loaded wasCacheSynced ok)"
| "probe_step wasCacheSynced (Loaded wasSynced ok) =
     (wasCacheSynced, if wasSynced > 0 then Finished None else Waited ok)"
| "probe_step wasCacheSynced (Waited ok) =
     (if ok then (1, Finished None)
      else (wasCacheSynced, Finished (Some (ErrorMsg ''controller sync cache in progress''))))"
| "probe_step wasCacheSynced (Finished res) = (wasCacheSynced, Finished res)"

fun run_schedule :: "nat list \<Rightarrow> 32 word \<times> probe list \<Rightarrow> 32 word \<times> probe list" where
  "run_schedule [] c = c"
| "run_schedule (i # sched) (flag, ps) =
     (if i < length ps
      then (case probe_step flag (ps ! i) of
              (flag', p') \<Rightarrow> run_schedule sched (flag', ps[i := p']))
      else run_schedule sched (flag, ps))"

text \<open>
  A probe on the fast path: it has not waited for the cache and has not failed.
  \<open>seen_synced\<close>: it has read a non-zero flag or returned nil.
\<close>

fun on_fast_path :: "probe \<Rightarrow> bool" where
  "on_fast_path (Idle ok) = True"
| "on_fast_path (Loaded wasSynced ok) = (wasSynced > 0)"
| "on_fast_path (Waited ok) = False"
| "on_fast_path (Finished res) = (res = None)"

fun seen_synced :: "probe \<Rightarrow> bool" where
  "seen_synced (Loaded wasSynced ok) = (wasSynced > 0)"
| "seen_synced (Finished res) = (res = None)"
| "seen_synced _ = False"

subsection \<open>Vocabulary and a concrete startup for evaluation\<close>

fun is_setup :: "sevent \<Rightarrow> bool" where
  "is_setup (SSetupWithManager kind) = True"
| "is_setup _ = False"

text \<open>
  The ownership bootstrap is enabled: the flag is on and the watch scope is cluster-wide.
\<close>

definition ownership_enabled :: "Flags \<Rightarrow> StartupEnv \<Rightarrow> bool" where
  "ownership_enabled f env = (\<not> disableCRDOwnership f \<and> MustGetWatchNamespaces env = [])"

fun is_new_manager :: "sevent \<Rightarrow> bool" where
  "is_new_manager (SNewManager co tlsOpts) = True"
| "is_new_manager _ = False"

text \<open>The calls made so far, whether the step ended the run or not.\<close>

fun progress_trace :: "progress \<Rightarrow> sevent list" where
  "progress_trace (Inl (t, tr)) = tr"
| "progress_trace (Inr tr) = tr"

text \<open>The calls of the ownership bootstrap, and the calls made after the reconcilers.\<close>

definition is_ownership :: "sevent \<Rightarrow> bool" where
  "is_ownership e = (e = SOwnershipClientNew \<or> e = SOwnershipInit)"

definition late_events :: "sevent set" where
  "late_events = {SNewForConfig, SServerVersion, SSetKubernetesVersion, SNewWithWatch,
                  SNewConverterController, SAddRunnable, SStartManager}"

text \<open>\<open>strings.Join(entries, sep)\<close>.\<close>

fun Join :: "string list \<Rightarrow> char \<Rightarrow> string" where
  "Join [] sep = []"
| "Join [entry] sep = entry"
| "Join (entry # entries) sep = entry @ sep # Join entries sep"

definition supported_objects :: "string set" where
  "supported_objects =
     {''namespace'', ''pod'', ''secret'', ''configmap'', ''deployment'', ''statefulset''}"

definition demo_flags :: Flags where
  "demo_flags =
     \<lparr>version = False, printDefaults = False, enableWebhooks = True,
      disableCRDOwnership = False, tlsEnable = False, mtlsEnable = False,
      mtlsCAFile = ''clietCA.crt'', disableCacheForObjects = ''''\<rparr>"

definition demo_startup :: StartupEnv where
  "demo_startup =
     \<lparr>PrintDefaults = None, MustGetWatchNamespaces = [], GetConfigOrDie = True,
      NewManager = None, AddReadyzCheck = None, AddHealthzCheck = None, client_New = None,
      Init = None, webhook_Complete = (\<lambda>obj. None), SetupWithManager = (\<lambda>kind. None),
      NewForConfig = None, ServerVersion = None, SetKubernetesVersionWithDefaults = None,
      NewWithWatch = None, NewConverterController = None, mgr_Add = None, mgr_Start = None\<rparr>"

section \<open>Properties of the reconciler\<close>

subsection \<open>The loop, one candidate at a time\<close>

lemma replay_append: "replay env (xs @ ys) w = replay env ys (replay env xs w)"
  by (induction env xs w rule: replay.induct) auto

lemma materialize_item_cases:
  "materialize_item env i c (w, tr) =
     (case fst (CreateOrUpdateRuleConfigMaps env w c) of
        Some err \<Rightarrow> Abort (Wrapf ''cannot update rules configmaps'' err)
      | None \<Rightarrow> Next,
      (snd (CreateOrUpdateRuleConfigMaps env w c), tr @ [EvMaterialize i c]))"
  by (cases "CreateOrUpdateRuleConfigMaps env w c") (auto simp: materialize_item_def split: option.splits)


lemma item_ineligible:
  assumes "\<not> eligible c"
  shows "reconcile_item env i c st = (Next, st)"
  using assms by (cases st) (auto simp: reconcile_item_def eligible_def)

lemma item_trace:
  assumes "reconcile_item env i c (w, tr) = (out, (w', tr'))"
  shows "\<exists>evs. tr' = tr @ evs \<and> w' = replay env evs w \<and>
           (\<forall>e\<in>set evs. ev_candidate e = Some c \<and> eligible c \<or> (\<exists>err m. e = EvLogError err m))"
  using assms
  by (auto simp: reconcile_item_def materialize_item_cases eligible_def
           split: if_splits sum.splits option.splits)

lemma items_trace:
  assumes "reconcile_items env i items (w, tr) = (r, (w', tr'))"
  shows "\<exists>evs. tr' = tr @ evs \<and> w' = replay env evs w \<and>
           (\<forall>e\<in>set evs. (\<exists>c\<in>set items. ev_candidate e = Some c \<and> eligible c) \<or> (\<exists>err m. e = EvLogError err m))"
  using assms
proof (induction items arbitrary: w tr)
  case Nil
  then show ?case by auto
next
  case (Cons c items)
  obtain out w1 tr1 where it: "reconcile_item env i c (w, tr) = (out, (w1, tr1))"
    by (metis prod.exhaust)
  from item_trace[OF it] obtain evs1 where e1: "tr1 = tr @ evs1" "w1 = replay env evs1 w"
    "\<forall>e\<in>set evs1. ev_candidate e = Some c \<and> eligible c \<or> (\<exists>err m. e = EvLogError err m)"
    by blast
  show ?case
  proof (cases out)
    case Next
    with Cons.prems it have "reconcile_items env i items (w1, tr1) = (r, (w', tr'))" by simp
    from Cons.IH[OF this] obtain evs2 where e2: "tr' = tr1 @ evs2" "w' = replay env evs2 w1"
      "\<forall>e\<in>set evs2. (\<exists>c\<in>set items. ev_candidate e = Some c \<and> eligible c) \<or> (\<exists>err m. e = EvLogError err m)"
      by blast
    have "tr' = tr @ (evs1 @ evs2)" using e1 e2 by simp
    moreover have "w' = replay env (evs1 @ evs2) w" using e1 e2 by (simp add: replay_append)
    moreover have "\<forall>e\<in>set (evs1 @ evs2). (\<exists>c\<in>set (c # items). ev_candidate e = Some c \<and> eligible c) \<or> (\<exists>err m. e = EvLogError err m)"
      using e1(3) e2(3) by auto
    ultimately show ?thesis by blast
  next
    case (Abort err)
    with Cons.prems it have "w' = w1" "tr' = tr1" by auto
    then show ?thesis using e1 by auto
  qed
qed

lemma handleReconcileErr_fst: "fst (handleReconcileErr r e) = r"
  by (induction r e rule: handleReconcileErr.induct) auto

lemma handleReconcileErr_Some:
  "snd (handleReconcileErr r e) = Some x \<Longrightarrow> e = Some x"
  by (induction r e rule: handleReconcileErr.induct) auto

lemma handleReconcileErr_Wrapf:
  "handleReconcileErr r (Some (Wrapf m e)) = (r, Some (Wrapf m e))"
  by simp

lemma Reconcile_trace: "snd (Reconcile env req w) = snd (Reconcile_body env req w)"
  by (simp add: Reconcile_def split: prod.splits)

lemma Reconcile_result:
  "fst (Reconcile env req w) =
     handleReconcileErr (fst (fst (Reconcile_body env req w))) (snd (fst (Reconcile_body env req w)))"
  by (simp add: Reconcile_def split: prod.splits)

lemma Reconcile_body_listed:
  assumes "Get env w req = Inr inst" "MustThrottleReconcile env w = (False, w1)"
    "ListObjectsByNamespace env w1 = Inr items"
  shows "Reconcile_body env req w =
           reconcile_items env inst items
             (w1, [EvGet req, EvRegisterObjectStat inst ''vmrule'',
                   EvMustThrottleReconcile, EvListObjectsByNamespace])"
  using assms by (simp add: Reconcile_body_def)

lemma items_fst_zero: "fst (fst (reconcile_items env i items st)) = Result_zero"
proof (induction items arbitrary: st)
  case Nil
  then show ?case by simp
next
  case (Cons c items)
  obtain out st1 where it: "reconcile_item env i c st = (out, st1)" by (metis prod.exhaust)
  show ?case using it Cons.IH[of st1] by (cases out) simp_all
qed

lemma items_append:
  "reconcile_items env i (xs @ ys) st =
     (case reconcile_items env i xs st of
        ((r, None), st') \<Rightarrow> reconcile_items env i ys st'
      | ((r, Some e), st') \<Rightarrow> ((r, Some e), st'))"
proof (induction xs arbitrary: st)
  case Nil
  then show ?case by simp
next
  case (Cons c xs)
  obtain out st1 where it: "reconcile_item env i c st = (out, st1)" by (metis prod.exhaust)
  show ?case using it Cons.IH[of st1] by (cases out) simp_all
qed

lemma items_error_source:
  assumes "snd (fst (reconcile_items env i items st)) = Some e"
  shows "\<exists>c w' e'. c \<in> set items \<and> fst (CreateOrUpdateRuleConfigMaps env w' c) = Some e'
            \<and> e = Wrapf ''cannot update rules configmaps'' e'"
  using assms
proof (induction items arbitrary: st)
  case Nil
  then show ?case by simp
next
  case (Cons c items)
  obtain w tr where st: "st = (w, tr)" by (cases st)
  obtain out st1 where it: "reconcile_item env i c (w, tr) = (out, st1)" by (metis prod.exhaust)
  show ?case
  proof (cases out)
    case Next
    with Cons.prems it st have "snd (fst (reconcile_items env i items st1)) = Some e" by simp
    from Cons.IH[OF this] show ?thesis by auto
  next
    case (Abort err)
    with Cons.prems it st have e: "e = err" by simp
    from it Abort have "\<exists>e'. fst (CreateOrUpdateRuleConfigMaps env w c) = Some e'
        \<and> err = Wrapf ''cannot update rules configmaps'' e'"
      by (auto simp: reconcile_item_def materialize_item_cases
               split: if_splits sum.splits option.splits)
    with e show ?thesis by auto
  qed
qed

lemma items_skip:
  "\<not> eligible c \<Longrightarrow> reconcile_items env i (c # items) st = reconcile_items env i items st"
  by (simp add: item_ineligible)




subsection \<open>The whole reconcile\<close>

lemma Reconcile_body_replay:
  "snd (Reconcile_body env req w) = (w', tr) \<Longrightarrow> w' = replay env tr w"
proof -
  assume a: "snd (Reconcile_body env req w) = (w', tr)"
  show ?thesis
  proof (cases "Get env w req")
    case (Inl e)
    with a show ?thesis by (auto simp: Reconcile_body_def)
  next
    case (Inr inst)
    obtain th w1 where th: "MustThrottleReconcile env w = (th, w1)" by (metis prod.exhaust)
    show ?thesis
    proof (cases th)
      case True
      with a Inr th show ?thesis by (auto simp: Reconcile_body_def)
    next
      case False
      show ?thesis
      proof (cases "ListObjectsByNamespace env w1")
        case (Inl e)
        with a Inr th False show ?thesis by (auto simp: Reconcile_body_def)
      next
        case (Inr items)
        let ?tr0 = "[EvGet req, EvRegisterObjectStat inst ''vmrule'',
                   EvMustThrottleReconcile, EvListObjectsByNamespace]"
        have b: "Reconcile_body env req w = reconcile_items env inst items (w1, ?tr0)"
          using \<open>Get env w req = Inr inst\<close> th False Inr by (simp add: Reconcile_body_listed)
        obtain r where "reconcile_items env inst items (w1, ?tr0) = (r, (w', tr))"
          using a b by (metis prod.collapse)
        from items_trace[OF this] obtain evs where
          e: "tr = ?tr0 @ evs" "w' = replay env evs w1" by blast
        have "replay env ?tr0 w = w1" using th by simp
        with e show ?thesis by (simp only: replay_append)
      qed
    qed
  qed
qed

lemma Reconcile_body_candidates:
  assumes "e \<in> set (snd (snd (Reconcile_body env req w)))" "ev_candidate e = Some c"
  shows "eligible c"
proof (cases "Get env w req")
  case (Inl err)
  with assms show ?thesis by (auto simp: Reconcile_body_def)
next
  case (Inr inst)
  obtain th w1 where th: "MustThrottleReconcile env w = (th, w1)" by (metis prod.exhaust)
  show ?thesis
  proof (cases th)
    case True
    with assms Inr th show ?thesis by (auto simp: Reconcile_body_def)
  next
    case False
    show ?thesis
    proof (cases "ListObjectsByNamespace env w1")
      case (Inl err)
      with assms Inr th False show ?thesis by (auto simp: Reconcile_body_def)
    next
      case (Inr items)
      let ?tr0 = "[EvGet req, EvRegisterObjectStat inst ''vmrule'',
                   EvMustThrottleReconcile, EvListObjectsByNamespace]"
      have b: "Reconcile_body env req w = reconcile_items env inst items (w1, ?tr0)"
        using \<open>Get env w req = Inr inst\<close> th False Inr by (simp add: Reconcile_body_listed)
      obtain r w' tr where r: "reconcile_items env inst items (w1, ?tr0) = (r, (w', tr))"
        by (metis prod.exhaust)
      from items_trace[OF this] obtain evs where
        e: "tr = ?tr0 @ evs"
        "\<forall>e\<in>set evs. (\<exists>c\<in>set items. ev_candidate e = Some c \<and> eligible c) \<or> (\<exists>err m. e = EvLogError err m)"
        by blast
      from assms(1) b r e(1) have "e \<in> set ?tr0 \<or> e \<in> set evs" by auto
      with assms(2) e(2) show ?thesis by auto
    qed
  qed
qed

lemma Reconcile_body_cases:
  obtains (get_failed) err where "Get env w req = Inl err"
      "Reconcile_body env req w =
         ((Result_zero, Some (GetError err ''vmrule'' req)), (w, [EvGet req]))"
  | (throttled) inst w1 where "Get env w req = Inr inst"
      "MustThrottleReconcile env w = (True, w1)"
      "Reconcile_body env req w =
         ((Result_zero, None),
          (w1, [EvGet req, EvRegisterObjectStat inst ''vmrule'', EvMustThrottleReconcile]))"
  | (list_failed) inst w1 err where "Get env w req = Inr inst"
      "MustThrottleReconcile env w = (False, w1)" "ListObjectsByNamespace env w1 = Inl err"
      "Reconcile_body env req w =
         ((Result_zero, Some (Wrapf ''cannot list vmauths for vmuser'' err)),
          (w1, [EvGet req, EvRegisterObjectStat inst ''vmrule'', EvMustThrottleReconcile,
                EvListObjectsByNamespace]))"
  | (listed) inst w1 items where "Get env w req = Inr inst"
      "MustThrottleReconcile env w = (False, w1)" "ListObjectsByNamespace env w1 = Inr items"
      "Reconcile_body env req w =
         reconcile_items env inst items
           (w1, [EvGet req, EvRegisterObjectStat inst ''vmrule'', EvMustThrottleReconcile,
                 EvListObjectsByNamespace])"
proof (cases "Get env w req")
  case (Inl err)
  then show ?thesis by (intro get_failed[of err]) (simp_all add: Reconcile_body_def)
next
  case (Inr inst)
  obtain th w1 where th: "MustThrottleReconcile env w = (th, w1)" by (metis prod.exhaust)
  show ?thesis
  proof (cases th)
    case True
    with Inr th show ?thesis by (intro throttled[of inst w1]) (simp_all add: Reconcile_body_def)
  next
    case False
    show ?thesis
    proof (cases "ListObjectsByNamespace env w1")
      case (Inl err)
      with \<open>Get env w req = Inr inst\<close> th False show ?thesis
        by (intro list_failed[of inst w1 err]) (simp_all add: Reconcile_body_def)
    next
      case (Inr items)
      with \<open>Get env w req = Inr inst\<close> th False show ?thesis
        by (intro listed[of inst w1 items]) (simp_all add: Reconcile_body_def)
    qed
  qed
qed


lemma Reconcile_body_error_source:
  assumes b: "snd (fst (Reconcile_body env req w)) = Some e"
  shows "(\<exists>e'. e = GetError e' ''vmrule'' req)
       \<or> (\<exists>e'. e = Wrapf ''cannot list vmauths for vmuser'' e')
       \<or> (\<exists>c w' e'. fst (CreateOrUpdateRuleConfigMaps env w' c) = Some e'
             \<and> e = Wrapf ''cannot update rules configmaps'' e')"
proof -
  show ?thesis
  proof (cases env w req rule: Reconcile_body_cases)
    case (get_failed err)
    with b show ?thesis by auto
  next
    case (throttled inst w1)
    with b show ?thesis by auto
  next
    case (list_failed inst w1 err)
    with b show ?thesis by auto
  next
    case (listed inst w1 items)
    with b have "snd (fst (reconcile_items env inst items
           (w1, [EvGet req, EvRegisterObjectStat inst ''vmrule'', EvMustThrottleReconcile,
                 EvListObjectsByNamespace]))) = Some e"
      by simp
    from items_error_source[OF this] show ?thesis by blast
  qed
qed

lemma Reconcile_error_source:
  assumes "snd (fst (Reconcile env req w)) = Some e"
  shows "(\<exists>e'. e = GetError e' ''vmrule'' req)
       \<or> (\<exists>e'. e = Wrapf ''cannot list vmauths for vmuser'' e')
       \<or> (\<exists>c w' e'. fst (CreateOrUpdateRuleConfigMaps env w' c) = Some e'
             \<and> e = Wrapf ''cannot update rules configmaps'' e')"
proof -
  from assms have "snd (fst (Reconcile_body env req w)) = Some e"
    by (simp add: Reconcile_result handleReconcileErr_Some)
  then show ?thesis by (rule Reconcile_body_error_source)
qed

lemma item_materializer_fails:
  assumes el: "DeletionTimestamp (alert_meta c) = None" "ParsingError (Spec c) = ''''"
    and sel: "Time_IsZero (DeletionTimestamp (rule_meta i)) \<and> \<not> SelectAllByDefault (Spec c)
               \<longrightarrow> isSelectorsMatchesTargetCRD env w i c
                     (RuleSelector (Spec c)) (RuleNamespaceSelector (Spec c)) = Inr True"
    and fail: "CreateOrUpdateRuleConfigMaps env w c = (Some err, w')"
  shows "reconcile_item env i c (w, tr) =
           (Abort (Wrapf ''cannot update rules configmaps'' err),
            (w', tr @ (if Time_IsZero (DeletionTimestamp (rule_meta i))
                          \<and> \<not> SelectAllByDefault (Spec c)
                       then [EvMatch i c] else []) @ [EvMaterialize i c]))"
  using el sel fail by (simp add: reconcile_item_def materialize_item_def)

lemma items_abort_after_prefix:
  assumes pre: "reconcile_items env i pre st0 = ((Result_zero, None), (w, tr))"
    and it: "reconcile_item env i c (w, tr) = (Abort e, st1)"
  shows "reconcile_items env i (pre @ c # rest) st0 = ((Result_zero, Some e), st1)"
  using pre it by (simp add: items_append)

lemmas demo_simps = demo_env_def demo_rule_def demo_alert_def demo_meta_def

subsection \<open>Claims about the reconciler\<close>



text \<open>
  C2. When the fetch succeeds and the admission gate reports throttling, \<open>Reconcile\<close>
  returns the zero result and no error at once: the only calls made are the fetch, the
  statistics counter and the gate itself; nothing is listed, matched or materialized,
  and no requeue is requested.
\<close>

theorem C2_throttled_reconcile_returns_at_once:
  assumes get: "Get env w req = Inr instance"
    and thr: "MustThrottleReconcile env w = (True, w1)"
  shows "Reconcile_body env req w =
           ((Result_zero, None),
            (w1, [EvGet req, EvRegisterObjectStat instance ''vmrule'', EvMustThrottleReconcile]))
       \<and> Reconcile env req w =
           ((Result_zero, None),
            (w1, [EvGet req, EvRegisterObjectStat instance ''vmrule'', EvMustThrottleReconcile]))
       \<and> Requeue (fst (fst (Reconcile env req w))) = False
       \<and> RequeueAfter (fst (fst (Reconcile env req w))) = 0
       \<and> filter (\<lambda>e. is_list_ev e \<or> is_match_ev e \<or> is_materialize_ev e)
            (snd (snd (Reconcile env req w))) = []"
  using get thr by (simp add: Reconcile_def Reconcile_body_def Result_zero_def)

theorem C2_witness:
  "Get (demo_env (demo_rule None) True [demo_alert ''a1'' None '''' True []] []) [] (''ns1'', ''r1'')
     = Inr (demo_rule None)
   \<and> MustThrottleReconcile (demo_env (demo_rule None) True [demo_alert ''a1'' None '''' True []] []) []
     = (True, [])
   \<and> Reconcile (demo_env (demo_rule None) True [demo_alert ''a1'' None '''' True []] [])
        (''ns1'', ''r1'') [] =
       ((Result_zero, None),
        ([], [EvGet (''ns1'', ''r1''), EvRegisterObjectStat (demo_rule None) ''vmrule'',
              EvMustThrottleReconcile]))"
proof -
  let ?env = "demo_env (demo_rule None) True [demo_alert ''a1'' None '''' True []] []"
  have g: "Get ?env [] (''ns1'', ''r1'') = Inr (demo_rule None)" by (simp add: demo_env_def)
  have t: "MustThrottleReconcile ?env [] = (True, [])" by (simp add: demo_env_def)
  from C2_throttled_reconcile_returns_at_once[OF g t] g t show ?thesis by blast
qed

text \<open>
  C3. When the selector evaluation for a candidate fails, that iteration logs the error
  and goes on: the pass over the list continues with the remaining candidates from the
  same world, with no materializer call for the failing candidate. Every error that
  \<open>Reconcile\<close> returns is a fetch failure, a list failure or a materializer failure,
  never a selector failure.
\<close>

theorem C3_selector_failure_skips_one_candidate:
  assumes el: "DeletionTimestamp (alert_meta c) = None" "ParsingError (Spec c) = ''''"
    and live: "Time_IsZero (DeletionTimestamp (rule_meta instance))"
    and nsa: "\<not> SelectAllByDefault (Spec c)"
    and bad: "isSelectorsMatchesTargetCRD env w instance c
                (RuleSelector (Spec c)) (RuleNamespaceSelector (Spec c)) = Inl err"
  shows "reconcile_item env instance c (w, tr) =
           (Next, (w, tr @ [EvMatch instance c,
                            EvLogError err ''cannot match vmalert and vmRule'']))
       \<and> reconcile_items env instance (c # items) (w, tr) =
           reconcile_items env instance items
             (w, tr @ [EvMatch instance c, EvLogError err ''cannot match vmalert and vmRule''])
       \<and> (\<forall>req w0 e. snd (fst (Reconcile_body env req w0)) = Some e
                    \<or> snd (fst (Reconcile env req w0)) = Some e \<longrightarrow>
            (\<exists>e'. e = GetError e' ''vmrule'' req)
            \<or> (\<exists>e'. e = Wrapf ''cannot list vmauths for vmuser'' e')
            \<or> (\<exists>c' w' e'. fst (CreateOrUpdateRuleConfigMaps env w' c') = Some e'
                  \<and> e = Wrapf ''cannot update rules configmaps'' e'))"
proof -
  have it: "reconcile_item env instance c (w, tr) =
           (Next, (w, tr @ [EvMatch instance c,
                            EvLogError err ''cannot match vmalert and vmRule'']))"
    using el live nsa bad by (simp add: reconcile_item_def)
  then have "reconcile_items env instance (c # items) (w, tr) =
           reconcile_items env instance items
             (w, tr @ [EvMatch instance c, EvLogError err ''cannot match vmalert and vmRule''])"
    by simp
  with it show ?thesis
    using Reconcile_error_source[of env] Reconcile_body_error_source[of env] by blast
qed

theorem C3_witness:
  "DeletionTimestamp (alert_meta (demo_alert ''a1'' None '''' False [])) = None
   \<and> ParsingError (Spec (demo_alert ''a1'' None '''' False [])) = ''''
   \<and> Time_IsZero (DeletionTimestamp (rule_meta (demo_rule None)))
   \<and> \<not> SelectAllByDefault (Spec (demo_alert ''a1'' None '''' False []))
   \<and> isSelectorsMatchesTargetCRD (demo_env (demo_rule None) False [] []) [] (demo_rule None)
        (demo_alert ''a1'' None '''' False [])
        (RuleSelector (Spec (demo_alert ''a1'' None '''' False [])))
        (RuleNamespaceSelector (Spec (demo_alert ''a1'' None '''' False [])))
       = Inl (OtherErr ''malformed selector'')
   \<and> reconcile_items (demo_env (demo_rule None) False [] []) (demo_rule None)
        [demo_alert ''a1'' None '''' False [], demo_alert ''a2'' None '''' True []] ([], []) =
       ((Result_zero, None),
        ([''a2''],
         [EvMatch (demo_rule None) (demo_alert ''a1'' None '''' False []),
          EvLogError (OtherErr ''malformed selector'') ''cannot match vmalert and vmRule'',
          EvMaterialize (demo_rule None) (demo_alert ''a2'' None '''' True [])]))"
proof -
  let ?r = "demo_rule None"
  let ?a1 = "demo_alert ''a1'' None '''' False []"
  let ?a2 = "demo_alert ''a2'' None '''' True []"
  let ?env = "demo_env ?r False [] []"
  have h1: "DeletionTimestamp (alert_meta ?a1) = None" by (simp add: demo_simps)
  have h2: "ParsingError (Spec ?a1) = ''''" by (simp add: demo_simps)
  have h3: "Time_IsZero (DeletionTimestamp (rule_meta ?r))" by (simp add: demo_simps)
  have h4: "\<not> SelectAllByDefault (Spec ?a1)" by (simp add: demo_simps)
  have h5: "isSelectorsMatchesTargetCRD ?env [] ?r ?a1 (RuleSelector (Spec ?a1))
              (RuleNamespaceSelector (Spec ?a1)) = Inl (OtherErr ''malformed selector'')"
    by (simp add: demo_simps)
  have s: "reconcile_items ?env ?r [?a1, ?a2] ([], []) =
           reconcile_items ?env ?r [?a2]
             ([], [] @ [EvMatch ?r ?a1,
                   EvLogError (OtherErr ''malformed selector'') ''cannot match vmalert and vmRule''])"
    using C3_selector_failure_skips_one_candidate[OF h1 h2 h3 h4 h5, of "[]" "[?a2]"] by blast
  have r: "reconcile_items ?env ?r [?a2]
             ([], [EvMatch ?r ?a1,
                   EvLogError (OtherErr ''malformed selector'') ''cannot match vmalert and vmRule'']) =
           ((Result_zero, None),
            ([''a2''],
             [EvMatch ?r ?a1,
              EvLogError (OtherErr ''malformed selector'') ''cannot match vmalert and vmRule'',
              EvMaterialize ?r ?a2]))"
    by (simp add: demo_simps reconcile_item_def materialize_item_def)
  from s r have "reconcile_items ?env ?r [?a1, ?a2] ([], []) =
           ((Result_zero, None),
            ([''a2''],
             [EvMatch ?r ?a1,
              EvLogError (OtherErr ''malformed selector'') ''cannot match vmalert and vmRule'',
              EvMaterialize ?r ?a2]))"
    by simp
  with h1 h2 h3 h4 h5 show ?thesis by blast
qed

text \<open>
  C4. When the materializer is called for a candidate and fails, the pass ends there:
  \<open>Reconcile\<close> returns the zero result with the wrapped failure as its error, the
  candidates after the failing one are not looked at, and the world it leaves is the one
  the failing call left, on top of what the earlier candidates of the pass wrote (their
  calls stay in the record and nothing is called after the failing one).
\<close>

theorem C4_materializer_failure_aborts_the_pass:
  assumes pre: "reconcile_items env instance pre st0 = ((Result_zero, None), (w, tr))"
    and el: "DeletionTimestamp (alert_meta c) = None" "ParsingError (Spec c) = ''''"
    and sel: "Time_IsZero (DeletionTimestamp (rule_meta instance))
               \<and> \<not> SelectAllByDefault (Spec c)
               \<longrightarrow> isSelectorsMatchesTargetCRD env w instance c
                     (RuleSelector (Spec c)) (RuleNamespaceSelector (Spec c)) = Inr True"
    and fail: "CreateOrUpdateRuleConfigMaps env w c = (Some err, w')"
  shows "reconcile_items env instance (pre @ c # rest) st0 =
           ((Result_zero, Some (Wrapf ''cannot update rules configmaps'' err)),
            (w', tr @ (if Time_IsZero (DeletionTimestamp (rule_meta instance))
                          \<and> \<not> SelectAllByDefault (Spec c)
                       then [EvMatch instance c] else []) @ [EvMaterialize instance c]))
       \<and> handleReconcileErr Result_zero (Some (Wrapf ''cannot update rules configmaps'' err)) =
           (Result_zero, Some (Wrapf ''cannot update rules configmaps'' err))
       \<and> (\<forall>req w0 w1.
            Get env w0 req = Inr instance \<and> MustThrottleReconcile env w0 = (False, w1)
            \<and> ListObjectsByNamespace env w1 = Inr (pre @ c # rest)
            \<and> st0 = (w1, [EvGet req, EvRegisterObjectStat instance ''vmrule'',
                          EvMustThrottleReconcile, EvListObjectsByNamespace])
            \<longrightarrow> Reconcile_body env req w0 = reconcile_items env instance (pre @ c # rest) st0
                \<and> Reconcile env req w0 =
                  ((Result_zero, Some (Wrapf ''cannot update rules configmaps'' err)),
                   (w', tr @ (if Time_IsZero (DeletionTimestamp (rule_meta instance))
                                 \<and> \<not> SelectAllByDefault (Spec c)
                              then [EvMatch instance c] else []) @ [EvMaterialize instance c]))
                \<and> w' = replay env (snd (snd (Reconcile env req w0))) w0)"
proof -
  let ?evs = "(if Time_IsZero (DeletionTimestamp (rule_meta instance))
                          \<and> \<not> SelectAllByDefault (Spec c)
                       then [EvMatch instance c] else []) @ [EvMaterialize instance c]"
  let ?e = "Wrapf ''cannot update rules configmaps'' err"
  have it: "reconcile_item env instance c (w, tr) = (Abort ?e, (w', tr @ ?evs))"
    using el sel fail by (rule item_materializer_fails)
  have loop: "reconcile_items env instance (pre @ c # rest) st0 =
      ((Result_zero, Some ?e), (w', tr @ ?evs))"
    using pre it by (rule items_abort_after_prefix)
  have h: "handleReconcileErr Result_zero (Some ?e) = (Result_zero, Some ?e)"
    by simp
  have whole: "Reconcile_body env req w0 = reconcile_items env instance (pre @ c # rest) st0
      \<and> Reconcile env req w0 = ((Result_zero, Some ?e), (w', tr @ ?evs))
      \<and> w' = replay env (snd (snd (Reconcile env req w0))) w0"
    if a: "Get env w0 req = Inr instance \<and> MustThrottleReconcile env w0 = (False, w1)
            \<and> ListObjectsByNamespace env w1 = Inr (pre @ c # rest)
            \<and> st0 = (w1, [EvGet req, EvRegisterObjectStat instance ''vmrule'',
                          EvMustThrottleReconcile, EvListObjectsByNamespace])"
    for req w0 w1
  proof -
    from a have b: "Reconcile_body env req w0 = reconcile_items env instance (pre @ c # rest) st0"
      by (simp add: Reconcile_body_listed)
    with loop have b': "Reconcile_body env req w0 = ((Result_zero, Some ?e), (w', tr @ ?evs))"
      by simp
    then have r: "Reconcile env req w0 = ((Result_zero, Some ?e), (w', tr @ ?evs))"
      by (simp add: Reconcile_def)
    from b' have "snd (Reconcile_body env req w0) = (w', tr @ ?evs)" by simp
    then have "w' = replay env (tr @ ?evs) w0" by (rule Reconcile_body_replay)
    with r b show ?thesis by simp
  qed
  from loop h whole show ?thesis by blast
qed

theorem C4_witness:
  "reconcile_items
      (demo_env (demo_rule None) False
         [demo_alert ''a0'' None '''' True [],
          demo_alert ''a1'' None '''' False [(''team'', ''y'')],
          demo_alert ''a2'' None '''' True []] [''a1''])
      (demo_rule None) [demo_alert ''a0'' None '''' True []]
      ([], [EvGet (''ns1'', ''r1''), EvRegisterObjectStat (demo_rule None) ''vmrule'',
            EvMustThrottleReconcile, EvListObjectsByNamespace]) =
     ((Result_zero, None),
      ([''a0''],
       [EvGet (''ns1'', ''r1''), EvRegisterObjectStat (demo_rule None) ''vmrule'',
        EvMustThrottleReconcile, EvListObjectsByNamespace,
        EvMaterialize (demo_rule None) (demo_alert ''a0'' None '''' True [])]))
   \<and> DeletionTimestamp (alert_meta (demo_alert ''a1'' None '''' False [(''team'', ''y'')])) = None
   \<and> ParsingError (Spec (demo_alert ''a1'' None '''' False [(''team'', ''y'')])) = ''''
   \<and> isSelectorsMatchesTargetCRD
        (demo_env (demo_rule None) False
           [demo_alert ''a0'' None '''' True [],
            demo_alert ''a1'' None '''' False [(''team'', ''y'')],
            demo_alert ''a2'' None '''' True []] [''a1''])
        [''a0''] (demo_rule None) (demo_alert ''a1'' None '''' False [(''team'', ''y'')])
        (RuleSelector (Spec (demo_alert ''a1'' None '''' False [(''team'', ''y'')])))
        (RuleNamespaceSelector (Spec (demo_alert ''a1'' None '''' False [(''team'', ''y'')])))
       = Inr True
   \<and> CreateOrUpdateRuleConfigMaps
        (demo_env (demo_rule None) False
           [demo_alert ''a0'' None '''' True [],
            demo_alert ''a1'' None '''' False [(''team'', ''y'')],
            demo_alert ''a2'' None '''' True []] [''a1''])
        [''a0''] (demo_alert ''a1'' None '''' False [(''team'', ''y'')])
       = (Some (OtherErr ''write failed''), [''a0''])
   \<and> Reconcile
        (demo_env (demo_rule None) False
           [demo_alert ''a0'' None '''' True [],
            demo_alert ''a1'' None '''' False [(''team'', ''y'')],
            demo_alert ''a2'' None '''' True []] [''a1''])
        (''ns1'', ''r1'') [] =
       ((Result_zero, Some (Wrapf ''cannot update rules configmaps'' (OtherErr ''write failed''))),
        ([''a0''],
         [EvGet (''ns1'', ''r1''), EvRegisterObjectStat (demo_rule None) ''vmrule'',
          EvMustThrottleReconcile, EvListObjectsByNamespace,
          EvMaterialize (demo_rule None) (demo_alert ''a0'' None '''' True []),
          EvMatch (demo_rule None) (demo_alert ''a1'' None '''' False [(''team'', ''y'')]),
          EvMaterialize (demo_rule None) (demo_alert ''a1'' None '''' False [(''team'', ''y'')])]))"
proof -
  let ?r = "demo_rule None"
  let ?a0 = "demo_alert ''a0'' None '''' True []"
  let ?a1 = "demo_alert ''a1'' None '''' False [(''team'', ''y'')]"
  let ?a2 = "demo_alert ''a2'' None '''' True []"
  let ?env = "demo_env ?r False [?a0, ?a1, ?a2] [''a1'']"
  let ?tr0 = "[EvGet (''ns1'', ''r1''), EvRegisterObjectStat ?r ''vmrule'',
               EvMustThrottleReconcile, EvListObjectsByNamespace]"
  have p: "reconcile_items ?env ?r [?a0] ([], ?tr0) =
             ((Result_zero, None), ([''a0''], ?tr0 @ [EvMaterialize ?r ?a0]))"
    by (simp add: demo_simps reconcile_item_def materialize_item_def)
  have h1: "DeletionTimestamp (alert_meta ?a1) = None" by (simp add: demo_simps)
  have h2: "ParsingError (Spec ?a1) = ''''" by (simp add: demo_simps)
  have m: "isSelectorsMatchesTargetCRD ?env [''a0''] ?r ?a1 (RuleSelector (Spec ?a1))
             (RuleNamespaceSelector (Spec ?a1)) = Inr True"
    by (simp add: demo_simps)
  then have h3: "Time_IsZero (DeletionTimestamp (rule_meta ?r)) \<and> \<not> SelectAllByDefault (Spec ?a1)
      \<longrightarrow> isSelectorsMatchesTargetCRD ?env [''a0''] ?r ?a1 (RuleSelector (Spec ?a1))
             (RuleNamespaceSelector (Spec ?a1)) = Inr True"
    by (rule impI)
  have live: "Time_IsZero (DeletionTimestamp (rule_meta ?r)) \<and> \<not> SelectAllByDefault (Spec ?a1)"
    by (simp add: demo_simps)
  have f: "CreateOrUpdateRuleConfigMaps ?env [''a0''] ?a1 = (Some (OtherErr ''write failed''), [''a0''])"
    by (simp add: demo_simps)
  have reach: "Get ?env [] (''ns1'', ''r1'') = Inr ?r \<and> MustThrottleReconcile ?env [] = (False, [])
      \<and> ListObjectsByNamespace ?env [] = Inr ([?a0] @ ?a1 # [?a2])
      \<and> ([], ?tr0) = ([], [EvGet (''ns1'', ''r1''), EvRegisterObjectStat ?r ''vmrule'',
                          EvMustThrottleReconcile, EvListObjectsByNamespace])"
    by (simp add: demo_env_def)
  note whole = C4_materializer_failure_aborts_the_pass[OF p h1 h2 h3 f, of "[?a2]",
      THEN conjunct2, THEN conjunct2, rule_format, OF reach, THEN conjunct2, THEN conjunct1]
  have "Reconcile ?env (''ns1'', ''r1'') [] =
       ((Result_zero, Some (Wrapf ''cannot update rules configmaps'' (OtherErr ''write failed''))),
        ([''a0''], ?tr0 @ [EvMaterialize ?r ?a0, EvMatch ?r ?a1, EvMaterialize ?r ?a1]))"
    using whole live by simp
  with p h1 h2 m f show ?thesis by simp
qed

text \<open>
  C5. A candidate with a deletion timestamp or a non-empty parsing error is skipped: its
  iteration changes nothing and calls nothing, and no reconcile ever records a selector
  evaluation or a materializer call for it.
\<close>

theorem C5_skipped_candidate_is_untouched:
  assumes skip: "DeletionTimestamp (alert_meta c) \<noteq> None \<or> ParsingError (Spec c) \<noteq> ''''"
  shows "reconcile_item env instance c st = (Next, st)
       \<and> reconcile_items env instance (c # items) st = reconcile_items env instance items st
       \<and> (\<forall>req w. \<forall>e\<in>set (snd (snd (Reconcile env req w))). ev_candidate e \<noteq> Some c)"
proof -
  from skip have ne: "\<not> eligible c" by (auto simp: eligible_def)
  have "\<forall>req w. \<forall>e\<in>set (snd (snd (Reconcile env req w))). ev_candidate e \<noteq> Some c"
    using ne Reconcile_body_candidates[of _ env _ _ c] by (auto simp: Reconcile_trace)
  with ne show ?thesis by (simp add: item_ineligible items_skip)
qed

theorem C5_witness:
  "DeletionTimestamp (alert_meta (demo_alert ''a1'' (Some 7) '''' True [])) = Some 7
   \<and> ParsingError (Spec (demo_alert ''a2'' None ''bad rule'' True [])) = ''bad rule''
   \<and> reconcile_items
        (demo_env (demo_rule None) False [] []) (demo_rule None)
        [demo_alert ''a1'' (Some 7) '''' True [], demo_alert ''a2'' None ''bad rule'' True []]
        ([], []) = ((Result_zero, None), ([], []))"
proof -
  let ?a1 = "demo_alert ''a1'' (Some 7) '''' True []"
  let ?a2 = "demo_alert ''a2'' None ''bad rule'' True []"
  let ?env = "demo_env (demo_rule None) False [] []"
  have h1: "DeletionTimestamp (alert_meta ?a1) \<noteq> None \<or> ParsingError (Spec ?a1) \<noteq> ''''"
    by (simp add: demo_simps)
  have h2: "DeletionTimestamp (alert_meta ?a2) \<noteq> None \<or> ParsingError (Spec ?a2) \<noteq> ''''"
    by (simp add: demo_simps)
  have s1: "reconcile_items ?env (demo_rule None) [?a1, ?a2] ([], []) =
            reconcile_items ?env (demo_rule None) [?a2] ([], [])"
    using C5_skipped_candidate_is_untouched[OF h1, of ?env "demo_rule None" "([], [])" "[?a2]"]
    by blast
  have s2: "reconcile_items ?env (demo_rule None) [?a2] ([], []) =
            reconcile_items ?env (demo_rule None) [] ([], [])"
    using C5_skipped_candidate_is_untouched[OF h2, of ?env "demo_rule None" "([], [])" "[]"]
    by blast
  from s1 s2 have "reconcile_items ?env (demo_rule None) [?a1, ?a2] ([], []) = ((Result_zero, None), ([], []))"
    by simp
  moreover have "DeletionTimestamp (alert_meta ?a1) = Some 7" by (simp add: demo_simps)
  moreover have "ParsingError (Spec ?a2) = ''bad rule''" by (simp add: demo_simps)
  ultimately show ?thesis by blast
qed

text \<open>
  C7. When the fetch of the target reports not-found, the body returns the fetch error
  and the deferred error handler turns it into success: \<open>Reconcile\<close> returns the zero
  result (no requeue) and no error, and the fetch is the only call it has made.
\<close>

theorem C7_not_found_is_terminal_success:
  assumes get: "Get env w req = Inl NotFoundErr"
  shows "Reconcile_body env req w =
           ((Result_zero, Some (GetError NotFoundErr ''vmrule'' req)), (w, [EvGet req]))
       \<and> Reconcile env req w = ((Result_zero, None), (w, [EvGet req]))
       \<and> Requeue (fst (fst (Reconcile env req w))) = False
       \<and> RequeueAfter (fst (fst (Reconcile env req w))) = 0
       \<and> filter (\<lambda>e. is_list_ev e \<or> is_match_ev e \<or> is_materialize_ev e)
            (snd (snd (Reconcile env req w))) = []"
  using get by (simp add: Reconcile_def Reconcile_body_def Result_zero_def)

theorem C7_witness:
  "Get (demo_env (demo_rule None) False [demo_alert ''a1'' None '''' True []] []) [] (''ns1'', ''gone'')
     = Inl NotFoundErr
   \<and> Reconcile (demo_env (demo_rule None) False [demo_alert ''a1'' None '''' True []] [])
        (''ns1'', ''gone'') [] = ((Result_zero, None), ([], [EvGet (''ns1'', ''gone'')]))"
proof -
  let ?env = "demo_env (demo_rule None) False [demo_alert ''a1'' None '''' True []] []"
  have g: "Get ?env [] (''ns1'', ''gone'') = Inl NotFoundErr" by (simp add: demo_env_def)
  from C7_not_found_is_terminal_success[OF g] g show ?thesis by blast
qed

section \<open>Properties of the manager\<close>

subsection \<open>Cache options\<close>

lemma Split_not_Nil: "Split s sep \<noteq> []"
  by (induction s) (auto split: list.splits)

lemma Join_Cons: "entries \<noteq> [] \<Longrightarrow> Join (entry # entries) sep = entry @ sep # Join entries sep"
  by (cases entries) auto

lemma Join_Split: "Join (Split s sep) sep = s"
proof (induction s)
  case Nil
  show ?case by simp
next
  case (Cons ch s)
  show ?case
  proof (cases "ch = sep")
    case True
    then show ?thesis using Cons.IH by (simp add: Join_Cons Split_not_Nil)
  next
    case False
    obtain entry entries where sp: "Split s sep = entry # entries"
      using Split_not_Nil[of s sep] by (cases "Split s sep") auto
    show ?thesis
    proof (cases entries)
      case Nil
      with sp Cons.IH False show ?thesis by simp
    next
      case (Cons e2 es)
      with sp Cons.IH False show ?thesis by simp
    qed
  qed
qed

lemma Split_entries_no_sep: "entry \<in> set (Split s sep) \<Longrightarrow> sep \<notin> set entry"
proof (induction s arbitrary: entry)
  case Nil
  then show ?case by simp
next
  case (Cons ch s)
  obtain e0 es where sp: "Split s sep = e0 # es"
    using Split_not_Nil[of s sep] by (cases "Split s sep") auto
  show ?case
  proof (cases "ch = sep")
    case True
    with Cons.prems have "entry = [] \<or> entry \<in> set (Split s sep)" by simp
    then show ?thesis using Cons.IH by auto
  next
    case False
    with Cons.prems sp have "entry = ch # e0 \<or> entry \<in> set es" by simp
    then show ?thesis
    proof
      assume "entry = ch # e0"
      moreover have "sep \<notin> set e0" using Cons.IH[of e0] sp by simp
      ultimately show ?thesis using False by auto
    next
      assume "entry \<in> set es"
      then show ?thesis using Cons.IH[of entry] sp by simp
    qed
  qed
qed

lemma cacheClientObjectsByName_None:
  "(cacheClientObjectsByName object = None) = (object \<notin> supported_objects)"
  by (simp add: cacheClientObjectsByName_def supported_objects_def)

lemma disable_objects_unsupported:
  assumes "\<exists>entry\<in>set objects. entry \<notin> supported_objects"
  shows "\<exists>bad. bad \<in> set objects \<and> bad \<notin> supported_objects
           \<and> disable_objects objects co = Inl (ErrorfQ ''not supported client object name='' bad)"
  using assms
proof (induction objects arbitrary: co)
  case Nil
  then show ?case by simp
next
  case (Cons object objects)
  show ?case
  proof (cases "cacheClientObjectsByName object")
    case None
    then have "object \<notin> supported_objects" by (simp add: cacheClientObjectsByName_None)
    with None show ?thesis by (intro exI[of _ object]) simp
  next
    case (Some obj)
    then have "object \<in> supported_objects"
      using cacheClientObjectsByName_None[of object] by simp
    with Cons.prems have "\<exists>entry\<in>set objects. entry \<notin> supported_objects" by auto
    from Cons.IH[OF this, of "co @ [obj]"] Some show ?thesis by auto
  qed
qed

lemma disable_objects_supported:
  assumes "\<forall>entry\<in>set objects. entry \<in> supported_objects"
  shows "disable_objects objects co =
           Inr (co @ map (\<lambda>object. the (cacheClientObjectsByName object)) objects)"
  using assms
proof (induction objects arbitrary: co)
  case Nil
  then show ?case by simp
next
  case (Cons object objects)
  then obtain obj where "cacheClientObjectsByName object = Some obj"
    using cacheClientObjectsByName_None[of object] by auto
  with Cons show ?case by simp
qed

lemma RunManager_early_trace:
  assumes "getClientCacheOptions (disableCacheForObjects f) = Inl err
           \<or> configureTLS f = Inl msg"
  shows "set (snd (RunManager f env)) \<subseteq> {SPrintVersion, SPrintDefaults, SGetConfigOrDie}"
  using assms by (auto simp: RunManager_def split: option.splits sum.splits)

subsection \<open>The order of the calls at startup\<close>

lemma call_Inr: "call ev res wrap tr = Inr tr' \<longleftrightarrow> res = None \<and> tr' = tr @ [ev]"
  by (auto simp: call_def split: option.splits)

lemma call_Inl:
  "call ev res wrap tr = Inl (t, tr') \<longleftrightarrow> (\<exists>e. res = Some e \<and> t = Return (Some (wrap e))) \<and> tr' = tr @ [ev]"
  by (auto simp: call_def split: option.splits)

lemma andThen_Inr: "andThen p f = Inr tr' \<longleftrightarrow> (\<exists>tr. p = Inr tr \<and> f tr = Inr tr')"
  by (auto simp: andThen_def split: sum.splits)

lemma andThen_Inl: "andThen p f = Inl x \<longleftrightarrow> p = Inl x \<or> (\<exists>tr. p = Inr tr \<and> f tr = Inl x)"
  by (auto simp: andThen_def split: sum.splits)

lemma create_manager_Inr:
  "create_manager env co tlsOpts tr = Inr tr' \<Longrightarrow>
     tr' = tr @ [SNewManager co tlsOpts, SAddReadyzCheck, SAddHealthzCheck]"
  by (auto simp: create_manager_def andThen_Inr call_Inr)

lemma create_manager_Inl:
  "create_manager env co tlsOpts tr = Inl (t, tr') \<Longrightarrow>
     \<exists>evs. tr' = tr @ evs \<and> set evs \<subseteq> {SNewManager co tlsOpts, SAddReadyzCheck, SAddHealthzCheck}"
  by (auto simp: create_manager_def andThen_Inl call_Inr call_Inl)

lemma ownership_bootstrap_Inr:
  "ownership_bootstrap f env tr = Inr tr' \<Longrightarrow>
     (if ownership_enabled f env
      then client_New env = None \<and> Init env = None
           \<and> tr' = tr @ [SOwnershipClientNew, SOwnershipInit]
      else tr' = tr)"
  by (auto simp: ownership_bootstrap_def ownership_enabled_def andThen_Inr call_Inr
           split: if_splits)

lemma ownership_bootstrap_Inl:
  "ownership_bootstrap f env tr = Inl (t, tr') \<Longrightarrow>
     ownership_enabled f env \<and>
     ((\<exists>e. client_New env = Some e \<and> t = Return (Some e) \<and> tr' = tr @ [SOwnershipClientNew])
      \<or> (\<exists>e. client_New env = None \<and> Init env = Some e \<and> t = Return (Some e)
             \<and> tr' = tr @ [SOwnershipClientNew, SOwnershipInit]))"
  by (auto simp: ownership_bootstrap_def ownership_enabled_def andThen_Inl call_Inr call_Inl
           split: if_splits)

lemma addWebhooks_trace:
  "\<exists>evs. progress_trace (addWebhooks env objs tr) = tr @ evs
         \<and> (\<forall>e\<in>set evs. \<exists>obj. e = SWebhookComplete obj)"
proof (induction objs arbitrary: tr)
  case Nil
  show ?case by simp
next
  case (Cons obj objs)
  show ?case
  proof (cases "webhook_Complete env obj")
    case None
    from Cons.IH[of "tr @ [SWebhookComplete obj]"] obtain evs where
      "progress_trace (addWebhooks env objs (tr @ [SWebhookComplete obj])) =
         (tr @ [SWebhookComplete obj]) @ evs" "\<forall>e\<in>set evs. \<exists>obj. e = SWebhookComplete obj"
      by (elim exE conjE) (rule that)
    with None show ?thesis by (intro exI[of _ "SWebhookComplete obj # evs"]) simp
  next
    case (Some err)
    then show ?thesis by (intro exI[of _ "[SWebhookComplete obj]"]) simp
  qed
qed

lemma register_controllers_trace:
  "\<exists>evs. progress_trace (register_controllers env kinds tr) = tr @ evs
         \<and> (\<forall>e\<in>set evs. is_setup e)"
proof (induction kinds arbitrary: tr)
  case Nil
  show ?case by simp
next
  case (Cons kind kinds)
  show ?case
  proof (cases "SetupWithManager env kind")
    case None
    from Cons.IH[of "tr @ [SSetupWithManager kind]"] obtain evs where
      "progress_trace (register_controllers env kinds (tr @ [SSetupWithManager kind])) =
         (tr @ [SSetupWithManager kind]) @ evs" "\<forall>e\<in>set evs. is_setup e"
      by (elim exE conjE) (rule that)
    with None show ?thesis by (intro exI[of _ "SSetupWithManager kind # evs"]) simp
  next
    case (Some err)
    then show ?thesis by (intro exI[of _ "[SSetupWithManager kind]"]) simp
  qed
qed

lemma start_manager_trace:
  "\<exists>evs. snd (start_manager env tr) = tr @ evs \<and> set evs \<subseteq> late_events"
  by (auto simp: start_manager_def andThen_def call_def late_events_def
           split: sum.splits option.splits)

lemma register_and_start_trace:
  "\<exists>evs. snd (register_and_start f env tr) = tr @ evs \<and> (\<forall>e\<in>set evs. \<not> is_ownership e)"
proof -
  let ?pC = "if enableWebhooks f then addWebhooks env webhook_objects tr else Inr tr"
  have "\<exists>evs. progress_trace ?pC = tr @ evs \<and> (\<forall>e\<in>set evs. \<exists>obj. e = SWebhookComplete obj)"
    using addWebhooks_trace[of env webhook_objects tr] by simp
  then obtain evsC where c: "progress_trace ?pC = tr @ evsC"
    "\<forall>e\<in>set evsC. \<exists>obj. e = SWebhookComplete obj"
    by (elim exE conjE) (rule that)
  from c(2) have cno: "\<forall>e\<in>set evsC. \<not> is_ownership e" by (auto simp: is_ownership_def)
  show ?thesis
  proof (cases ?pC)
    case (Inl x)
    obtain t' trC where x: "x = (t', trC)" by (cases x)
    with Inl c(1) have "trC = tr @ evsC" by simp
    moreover from Inl x have "register_and_start f env tr = (t', trC)"
      by (simp add: register_and_start_def andThen_def)
    ultimately show ?thesis using cno by auto
  next
    case (Inr trC)
    with c(1) have trC: "trC = tr @ evsC" by simp
    let ?pD = "register_controllers env controllers trC"
    from register_controllers_trace[of env controllers trC]
    obtain evsD where d: "progress_trace ?pD = trC @ evsD" "\<forall>e\<in>set evsD. is_setup e"
      by (elim exE conjE) (rule that)
    from d(2) have dno: "\<forall>e\<in>set evsD. \<not> is_ownership e" by (auto simp: is_ownership_def)
    show ?thesis
    proof (cases ?pD)
      case (Inl x)
      obtain t' trD where x: "x = (t', trD)" by (cases x)
      with Inl d(1) have "trD = trC @ evsD" by simp
      moreover from Inl x \<open>?pC = Inr trC\<close> have "register_and_start f env tr = (t', trD)"
        by (simp add: register_and_start_def andThen_def)
      ultimately have "snd (register_and_start f env tr) = tr @ (evsC @ evsD)"
        using trC by simp
      moreover have "\<forall>e\<in>set (evsC @ evsD). \<not> is_ownership e" using cno dno by auto
      ultimately show ?thesis by blast
    next
      case (Inr trD)
      with d(1) have trD: "trD = trC @ evsD" by simp
      from start_manager_trace[of env trD] obtain evsE where
        e: "snd (start_manager env trD) = trD @ evsE" "set evsE \<subseteq> late_events"
        by (elim exE conjE) (rule that)
      from e(2) have eno: "\<forall>e\<in>set evsE. \<not> is_ownership e"
        by (auto simp: is_ownership_def late_events_def)
      from Inr \<open>?pC = Inr trC\<close> have "register_and_start f env tr = start_manager env trD"
        by (simp add: register_and_start_def andThen_def)
      with e(1) trD trC have "snd (register_and_start f env tr) = tr @ (evsC @ evsD @ evsE)"
        by simp
      moreover have "\<forall>e\<in>set (evsC @ evsD @ evsE). \<not> is_ownership e" using cno dno eno by auto
      ultimately show ?thesis by blast
    qed
  qed
qed

text \<open>What a run that gets past the flags looks like.\<close>

lemma run_registered_shape:
  assumes run: "run_registered f env co tlsOpts tr0 = (t, tr)"
    and tr0: "\<forall>e\<in>set tr0. \<not> is_setup e \<and> \<not> is_ownership e"
  shows "((\<forall>e\<in>set tr. \<not> is_setup e)
          \<and> (SOwnershipInit \<in> set tr \<longrightarrow>
                ownership_enabled f env \<and> client_New env = None
                \<and> (\<exists>err. Init env = Some err \<and> t = Return (Some err)))
          \<and> (SOwnershipClientNew \<in> set tr \<longrightarrow>
                ownership_enabled f env
                \<and> (\<exists>err. t = Return (Some err) \<and>
                      (client_New env = Some err \<or> client_New env = None \<and> Init env = Some err))))
       \<or> (\<exists>trB rest. tr = trB @ rest \<and> (\<forall>e\<in>set trB. \<not> is_setup e)
             \<and> (\<forall>e\<in>set rest. \<not> is_ownership e)
             \<and> (if ownership_enabled f env
                 then SOwnershipInit \<in> set trB \<and> client_New env = None \<and> Init env = None
                 else \<forall>e\<in>set trB. \<not> is_ownership e))"
proof (cases "create_manager env co tlsOpts tr0")
  case (Inl x)
  obtain t' trA where x: "x = (t', trA)" by (cases x)
  with Inl run have r: "t = t'" "tr = trA" by (simp_all add: run_registered_def andThen_def)
  from create_manager_Inl[of env co tlsOpts tr0 t' trA] Inl x obtain evs where
    "trA = tr0 @ evs" "set evs \<subseteq> {SNewManager co tlsOpts, SAddReadyzCheck, SAddHealthzCheck}"
    by auto
  with tr0 r have "\<forall>e\<in>set tr. \<not> is_setup e \<and> \<not> is_ownership e"
    by (auto simp: is_ownership_def)
  then have "(\<forall>e\<in>set tr. \<not> is_setup e) \<and> SOwnershipInit \<notin> set tr \<and> SOwnershipClientNew \<notin> set tr"
    by (auto simp: is_ownership_def)
  then show ?thesis by blast
next
  case (Inr trA)
  from create_manager_Inr[OF Inr] have trA: "trA = tr0 @ [SNewManager co tlsOpts, SAddReadyzCheck, SAddHealthzCheck]" .
  with tr0 have a0: "\<forall>e\<in>set trA. \<not> is_setup e \<and> \<not> is_ownership e"
    by (auto simp: is_ownership_def)
  show ?thesis
  proof (cases "ownership_bootstrap f env trA")
    case (Inl x)
    obtain t' trB where x: "x = (t', trB)" by (cases x)
    with Inl Inr run have r: "t = t'" "tr = trB" by (simp_all add: run_registered_def andThen_def)
    from ownership_bootstrap_Inl[of f env trA t' trB] Inl x have
      b: "ownership_enabled f env"
      "(\<exists>e. client_New env = Some e \<and> t' = Return (Some e) \<and> trB = trA @ [SOwnershipClientNew])
      \<or> (\<exists>e. client_New env = None \<and> Init env = Some e \<and> t' = Return (Some e)
             \<and> trB = trA @ [SOwnershipClientNew, SOwnershipInit])"
      by simp_all
    from b(2) show ?thesis
    proof
      assume "\<exists>e. client_New env = Some e \<and> t' = Return (Some e) \<and> trB = trA @ [SOwnershipClientNew]"
      then obtain e where e: "client_New env = Some e" "t' = Return (Some e)"
        "trB = trA @ [SOwnershipClientNew]" by blast
      with a0 r b(1) have "(\<forall>e\<in>set tr. \<not> is_setup e) \<and> SOwnershipInit \<notin> set tr
          \<and> ownership_enabled f env \<and> t = Return (Some e) \<and> client_New env = Some e"
        by (auto simp: is_ownership_def)
      then show ?thesis by blast
    next
      assume "\<exists>e. client_New env = None \<and> Init env = Some e \<and> t' = Return (Some e)
             \<and> trB = trA @ [SOwnershipClientNew, SOwnershipInit]"
      then obtain e where e: "client_New env = None" "Init env = Some e" "t' = Return (Some e)"
        "trB = trA @ [SOwnershipClientNew, SOwnershipInit]" by blast
      with a0 r b(1) have "(\<forall>e\<in>set tr. \<not> is_setup e)
          \<and> ownership_enabled f env \<and> t = Return (Some e) \<and> client_New env = None
          \<and> Init env = Some e"
        by (auto simp: is_ownership_def)
      then show ?thesis by blast
    qed
  next
    case (Inr trB)
    from ownership_bootstrap_Inr[OF Inr] have
      b: "if ownership_enabled f env
          then client_New env = None \<and> Init env = None
               \<and> trB = trA @ [SOwnershipClientNew, SOwnershipInit]
          else trB = trA" .
    from Inr \<open>create_manager env co tlsOpts tr0 = Inr trA\<close> run
    have "register_and_start f env trB = (t, tr)"
      by (simp add: run_registered_def andThen_def)
    with register_and_start_trace[of f env trB] obtain rest where
      rest: "tr = trB @ rest" "\<forall>e\<in>set rest. \<not> is_ownership e"
      by auto
    have nb: "\<forall>e\<in>set trB. \<not> is_setup e" using a0 b by (auto split: if_splits)
    have st: "if ownership_enabled f env
                 then SOwnershipInit \<in> set trB \<and> client_New env = None \<and> Init env = None
                 else \<forall>e\<in>set trB. \<not> is_ownership e"
      using a0 b by (auto split: if_splits)
    from rest nb st show ?thesis by blast
  qed
qed

lemma RunManager_cases:
  "set (snd (RunManager f env)) \<subseteq> {SPrintVersion, SPrintDefaults, SGetConfigOrDie}
   \<or> (\<exists>co tlsOpts. RunManager f env = run_registered f env co tlsOpts [SGetConfigOrDie])"
proof (cases "getClientCacheOptions (disableCacheForObjects f)")
  case (Inl err)
  then have "getClientCacheOptions (disableCacheForObjects f) = Inl err \<or> configureTLS f = Inl []"
    by simp
  from RunManager_early_trace[OF this] show ?thesis by blast
next
  case (Inr co)
  show ?thesis
  proof (cases "configureTLS f")
    case (Inl msg)
    then have "getClientCacheOptions (disableCacheForObjects f) = Inl NotFoundErr
        \<or> configureTLS f = Inl msg"
      by simp
    from RunManager_early_trace[OF this] show ?thesis by blast
  next
    case (Inr tlsOpts)
    show ?thesis
    proof (cases "version f \<or> printDefaults f \<or> \<not> GetConfigOrDie env")
      case True
      then have "set (snd (RunManager f env)) \<subseteq> {SPrintVersion, SPrintDefaults, SGetConfigOrDie}"
        by (auto simp: RunManager_def split: option.splits)
      then show ?thesis by blast
    next
      case False
      with Inr \<open>getClientCacheOptions (disableCacheForObjects f) = Inr co\<close>
      have "RunManager f env = run_registered f env co tlsOpts [SGetConfigOrDie]"
        by (simp add: RunManager_def)
      then show ?thesis by blast
    qed
  qed
qed

lemma RunManager_shape:
  assumes run: "RunManager f env = (t, tr)"
  shows "((\<forall>e\<in>set tr. \<not> is_setup e)
          \<and> (SOwnershipInit \<in> set tr \<longrightarrow>
                ownership_enabled f env \<and> client_New env = None
                \<and> (\<exists>err. Init env = Some err \<and> t = Return (Some err)))
          \<and> (SOwnershipClientNew \<in> set tr \<longrightarrow>
                ownership_enabled f env
                \<and> (\<exists>err. t = Return (Some err) \<and>
                      (client_New env = Some err \<or> client_New env = None \<and> Init env = Some err))))
       \<or> (\<exists>trB rest. tr = trB @ rest \<and> (\<forall>e\<in>set trB. \<not> is_setup e)
             \<and> (\<forall>e\<in>set rest. \<not> is_ownership e)
             \<and> (if ownership_enabled f env
                 then SOwnershipInit \<in> set trB \<and> client_New env = None \<and> Init env = None
                 else \<forall>e\<in>set trB. \<not> is_ownership e))"
proof -
  from RunManager_cases[of f env] show ?thesis
  proof
    assume "set (snd (RunManager f env)) \<subseteq> {SPrintVersion, SPrintDefaults, SGetConfigOrDie}"
    with run have "set tr \<subseteq> {SPrintVersion, SPrintDefaults, SGetConfigOrDie}" by simp
    then have "(\<forall>e\<in>set tr. \<not> is_setup e) \<and> SOwnershipInit \<notin> set tr
        \<and> SOwnershipClientNew \<notin> set tr"
      by auto
    then show ?thesis by blast
  next
    assume "\<exists>co tlsOpts. RunManager f env = run_registered f env co tlsOpts [SGetConfigOrDie]"
    then obtain co tlsOpts where
      "RunManager f env = run_registered f env co tlsOpts [SGetConfigOrDie]" by blast
    with run have "run_registered f env co tlsOpts [SGetConfigOrDie] = (t, tr)" by simp
    then show ?thesis by (rule run_registered_shape) (simp add: is_ownership_def)
  qed
qed

lemma demo_run_init_fails:
  "RunManager demo_flags (demo_startup\<lparr>Init := Some (OtherErr ''crd'')\<rparr>) =
     (Return (Some (OtherErr ''crd'')),
      [SGetConfigOrDie, SNewManager \<lparr>DisableFor = []\<rparr> [], SAddReadyzCheck, SAddHealthzCheck,
       SOwnershipClientNew, SOwnershipInit])"
  by (simp add: RunManager_def demo_flags_def demo_startup_def getClientCacheOptions_def
        configureTLS_def run_registered_def create_manager_def ownership_bootstrap_def
        andThen_def call_def)

lemma demo_run_succeeds:
  "RunManager (demo_flags\<lparr>enableWebhooks := False\<rparr>) demo_startup =
     (Return None,
      [SGetConfigOrDie, SNewManager \<lparr>DisableFor = []\<rparr> [], SAddReadyzCheck, SAddHealthzCheck,
       SOwnershipClientNew, SOwnershipInit]
      @ map SSetupWithManager controllers
      @ [SNewForConfig, SServerVersion, SSetKubernetesVersion, SNewWithWatch,
         SNewConverterController, SAddRunnable, SStartManager])"
  by (simp add: RunManager_def demo_flags_def demo_startup_def getClientCacheOptions_def
        configureTLS_def run_registered_def create_manager_def ownership_bootstrap_def
        register_and_start_def start_manager_def controllers_def andThen_def call_def)

subsection \<open>The readiness check, probe after probe\<close>

lemma readyz_fast_path:
  "0 < flag \<Longrightarrow> readyz_check ok (flag, tr) = (None, (flag, tr @ [RzLoad]))"
  by (simp add: readyz_check_def)

lemma readyz_success_sets_flag:
  "readyz_check ok (flag, tr) = (None, (flag', tr')) \<Longrightarrow> 0 < flag'"
  by (auto simp: readyz_check_def Let_def split: if_splits)

lemma readyz_checks_latched:
  "0 < flag \<Longrightarrow>
     readyz_checks oks (flag, tr) =
       (replicate (length oks) None, (flag, tr @ replicate (length oks) RzLoad))"
proof (induction oks arbitrary: tr)
  case Nil
  show ?case by simp
next
  case (Cons ok oks)
  from Cons.prems have "readyz_check ok (flag, tr) = (None, (flag, tr @ [RzLoad]))"
    by (rule readyz_fast_path)
  with Cons.IH[OF Cons.prems, of "tr @ [RzLoad]"] show ?case
    by (simp add: replicate_app_Cons_same)
qed

lemma readyz_checks_from_zero:
  "\<exists>k\<le>length oks.
     fst (readyz_checks oks (0, tr)) =
       replicate k (Some (ErrorMsg ''controller sync cache in progress''))
       @ replicate (length oks - k) None
     \<and> length (filter is_store (snd (snd (readyz_checks oks (0, tr))))) =
         length (filter is_store tr) + (if k < length oks then 1 else 0)
     \<and> fst (snd (readyz_checks oks (0, tr))) = (if k < length oks then 1 else 0)"
proof (induction oks arbitrary: tr)
  case Nil
  show ?case by simp
next
  case (Cons ok oks)
  show ?case
  proof (cases ok)
    case True
    have c: "readyz_check ok (0, tr) = (None, (1, tr @ [RzLoad, RzWaitForCacheSync, RzStore 1]))"
      using True by (simp add: readyz_check_def)
    have l: "readyz_checks oks (1, tr @ [RzLoad, RzWaitForCacheSync, RzStore 1]) =
       (replicate (length oks) None,
        (1, (tr @ [RzLoad, RzWaitForCacheSync, RzStore 1]) @ replicate (length oks) RzLoad))"
      by (rule readyz_checks_latched) simp
    have "filter is_store (replicate (length oks) RzLoad) = []" by (induction oks) auto
    with c l show ?thesis by (intro exI[of _ 0]) simp
  next
    case False
    have c: "readyz_check ok (0, tr) =
       (Some (ErrorMsg ''controller sync cache in progress''), (0, tr @ [RzLoad, RzWaitForCacheSync]))"
      using False by (simp add: readyz_check_def)
    let ?tr1 = "tr @ [RzLoad, RzWaitForCacheSync]"
    obtain k where k: "k \<le> length oks"
      "fst (readyz_checks oks (0, ?tr1)) =
         replicate k (Some (ErrorMsg ''controller sync cache in progress''))
         @ replicate (length oks - k) None"
      "length (filter is_store (snd (snd (readyz_checks oks (0, ?tr1))))) =
         length (filter is_store ?tr1) + (if k < length oks then 1 else 0)"
      "fst (snd (readyz_checks oks (0, ?tr1))) = (if k < length oks then 1 else 0)"
      using Cons.IH[of ?tr1] by (elim exE conjE) (rule that)
    obtain ress st where r: "readyz_checks oks (0, ?tr1) = (ress, st)" by (metis prod.exhaust)
    have full: "readyz_checks (ok # oks) (0, tr) =
        (Some (ErrorMsg ''controller sync cache in progress'') # ress, st)"
      using c r by simp
    show ?thesis
    proof (intro exI[of _ "Suc k"] conjI)
      show "Suc k \<le> length (ok # oks)" using k(1) by simp
      show "fst (readyz_checks (ok # oks) (0, tr)) =
          replicate (Suc k) (Some (ErrorMsg ''controller sync cache in progress''))
          @ replicate (length (ok # oks) - Suc k) None"
        using k(2) r full by simp
      show "length (filter is_store (snd (snd (readyz_checks (ok # oks) (0, tr))))) =
          length (filter is_store tr) + (if Suc k < length (ok # oks) then 1 else 0)"
        using k(3) r full by simp
      show "fst (snd (readyz_checks (ok # oks) (0, tr))) =
          (if Suc k < length (ok # oks) then 1 else 0)"
        using k(4) r full by simp
    qed
  qed
qed

subsection \<open>The readiness check, overlapping probes\<close>

lemma probe_step_flag: "fst (probe_step flag p) = flag \<or> fst (probe_step flag p) = 1"
  by (cases p) auto

lemma probe_step_keeps_synced: "0 < flag \<Longrightarrow> 0 < fst (probe_step flag p)"
  by (cases p) auto

lemma probe_step_fast:
  "0 < flag \<Longrightarrow> on_fast_path p \<Longrightarrow> on_fast_path (snd (probe_step flag p))"
  by (cases p) auto

lemma probe_step_seen:
  "(seen_synced p \<longrightarrow> 0 < flag) \<Longrightarrow> seen_synced (snd (probe_step flag p))
     \<Longrightarrow> 0 < fst (probe_step flag p)"
  by (cases p) (auto split: if_splits)

lemma run_schedule_keeps_synced:
  "0 < flag \<Longrightarrow> 0 < fst (run_schedule sched (flag, ps))"
proof (induction sched arbitrary: flag ps)
  case Nil
  then show ?case by simp
next
  case (Cons i sched)
  show ?case
  proof (cases "i < length ps")
    case True
    obtain flag' p' where s: "probe_step flag (ps ! i) = (flag', p')" by (metis prod.exhaust)
    have "0 < flag'" using probe_step_keeps_synced[OF Cons.prems, of "ps ! i"] s by simp
    from Cons.IH[OF this, of "ps[i := p']"] True s show ?thesis by simp
  next
    case False
    with Cons.IH[OF Cons.prems, of ps] show ?thesis by simp
  qed
qed

lemma run_schedule_length: "length (snd (run_schedule sched (flag, ps))) = length ps"
proof (induction sched arbitrary: flag ps)
  case Nil
  show ?case by simp
next
  case (Cons i sched)
  show ?case
  proof (cases "i < length ps")
    case True
    obtain flag' p' where s: "probe_step flag (ps ! i) = (flag', p')" by (metis prod.exhaust)
    from Cons.IH[of flag' "ps[i := p']"] True s show ?thesis by simp
  next
    case False
    with Cons.IH[of flag ps] show ?thesis by simp
  qed
qed

lemma run_schedule_flag_values:
  "fst (run_schedule sched (flag, ps)) = flag \<or> fst (run_schedule sched (flag, ps)) = 1"
proof (induction sched arbitrary: flag ps)
  case Nil
  show ?case by simp
next
  case (Cons i sched)
  show ?case
  proof (cases "i < length ps")
    case True
    obtain flag' p' where s: "probe_step flag (ps ! i) = (flag', p')" by (metis prod.exhaust)
    have f: "flag' = flag \<or> flag' = 1" using probe_step_flag[of flag "ps ! i"] s by simp
    from Cons.IH[of flag' "ps[i := p']"] True s f show ?thesis by auto
  next
    case False
    with Cons.IH[of flag ps] show ?thesis by simp
  qed
qed

lemma run_schedule_fast:
  assumes "0 < flag" "j < length ps" "on_fast_path (ps ! j)"
  shows "on_fast_path (snd (run_schedule sched (flag, ps)) ! j)"
  using assms
proof (induction sched arbitrary: flag ps)
  case Nil
  then show ?case by simp
next
  case (Cons i sched)
  show ?case
  proof (cases "i < length ps")
    case True
    obtain flag' p' where s: "probe_step flag (ps ! i) = (flag', p')" by (metis prod.exhaust)
    have f: "0 < flag'" using probe_step_keeps_synced[OF Cons.prems(1), of "ps ! i"] s by simp
    have l: "j < length (ps[i := p'])" using Cons.prems(2) by simp
    have fp: "on_fast_path (ps[i := p'] ! j)"
    proof (cases "i = j")
      case True
      with probe_step_fast[OF Cons.prems(1), of "ps ! i"] Cons.prems(2,3) s show ?thesis by simp
    next
      case False
      with Cons.prems(3) show ?thesis by simp
    qed
    from Cons.IH[OF f l fp] True s show ?thesis by simp
  next
    case False
    with Cons.IH[OF Cons.prems] show ?thesis by simp
  qed
qed

lemma run_schedule_seen:
  assumes "\<forall>p\<in>set ps. seen_synced p \<longrightarrow> 0 < flag"
    and "p \<in> set (snd (run_schedule sched (flag, ps)))" "seen_synced p"
  shows "0 < fst (run_schedule sched (flag, ps))"
  using assms
proof (induction sched arbitrary: flag ps)
  case Nil
  then show ?case by auto
next
  case (Cons i sched)
  show ?case
  proof (cases "i < length ps")
    case True
    obtain flag' p' where s: "probe_step flag (ps ! i) = (flag', p')" by (metis prod.exhaust)
    have inv: "\<forall>q\<in>set (ps[i := p']). seen_synced q \<longrightarrow> 0 < flag'"
    proof (intro ballI impI)
      fix q assume q: "q \<in> set (ps[i := p'])" "seen_synced q"
      from q(1) have "q = p' \<or> q \<in> set ps" by (meson in_set_conv_nth set_update_subset_insert subsetD insertE)
      then show "0 < flag'"
      proof
        assume "q = p'"
        moreover have "seen_synced (ps ! i) \<longrightarrow> 0 < flag"
          using Cons.prems(1) nth_mem[OF True] by blast
        ultimately show ?thesis using probe_step_seen[of "ps ! i" flag] q(2) s by simp
      next
        assume "q \<in> set ps"
        with Cons.prems(1) q(2) have "0 < flag" by blast
        then show ?thesis using probe_step_keeps_synced[of flag "ps ! i"] s by simp
      qed
    qed
    from Cons.prems(2) True s have "p \<in> set (snd (run_schedule sched (flag', ps[i := p'])))"
      by simp
    from Cons.IH[OF inv this Cons.prems(3)] True s show ?thesis by simp
  next
    case False
    with Cons.prems have "p \<in> set (snd (run_schedule sched (flag, ps)))" by simp
    from Cons.IH[OF Cons.prems(1) this Cons.prems(3)] False show ?thesis by simp
  qed
qed

lemma run_schedule_append:
  "run_schedule (s1 @ s2) c = run_schedule s2 (run_schedule s1 c)"
proof (induction s1 arbitrary: c)
  case Nil
  show ?case by simp
next
  case (Cons i s1)
  obtain flag ps where c: "c = (flag, ps)" by (cases c)
  show ?case
  proof (cases "i < length ps")
    case True
    obtain flag' p' where s: "probe_step flag (ps ! i) = (flag', p')" by (metis prod.exhaust)
    from Cons.IH[of "(flag', ps[i := p'])"] True s c show ?thesis by simp
  next
    case False
    with Cons.IH[of "(flag, ps)"] c show ?thesis by simp
  qed
qed

lemma probe_alone:
  "run_schedule [0, 0, 0] (flag, [Idle ok]) =
     (fst (snd (readyz_check ok (flag, tr))), [Finished (fst (readyz_check ok (flag, tr)))])"
  by (simp add: readyz_check_def)

lemma run_schedule_from_start:
  assumes "p \<in> set (snd (run_schedule sched (0, map Idle oks)))" "seen_synced p"
  shows "fst (run_schedule sched (0, map Idle oks)) = 1"
proof -
  have "\<forall>q\<in>set (map Idle oks). seen_synced q \<longrightarrow> 0 < (0 :: 32 word)" by auto
  from run_schedule_seen[OF this assms] have "0 < fst (run_schedule sched (0, map Idle oks))" .
  with run_schedule_flag_values[of sched 0 "map Idle oks"] show ?thesis by auto
qed

subsection \<open>Claims about the manager\<close>

text \<open>
  C6. In every run of \<open>RunManager\<close>: the ownership bootstrap (\<open>vmv1beta1.Init\<close>) is
  called only when CRD ownership is not disabled and no watch namespace is configured,
  and then before the first \<open>SetupWithManager\<close> call; when it is enabled, a run that
  registers any reconciler has made the bootstrap call before and the call succeeded;
  and when the bootstrap call (or the creation of its client) fails, \<open>RunManager\<close>
  returns that error and registers no reconciler.
\<close>

theorem C6_ownership_bootstrap_before_registration:
  assumes run: "RunManager f env = (t, tr)"
  shows "(SOwnershipInit \<in> set tr \<longrightarrow>
            \<not> disableCRDOwnership f \<and> MustGetWatchNamespaces env = []
            \<and> SOwnershipInit \<in> set (takeWhile (\<lambda>e. \<not> is_setup e) tr))
       \<and> ((\<exists>e\<in>set tr. is_setup e) \<and> \<not> disableCRDOwnership f
             \<and> MustGetWatchNamespaces env = [] \<longrightarrow>
            SOwnershipInit \<in> set (takeWhile (\<lambda>e. \<not> is_setup e) tr)
            \<and> client_New env = None \<and> Init env = None)
       \<and> (\<forall>err. SOwnershipInit \<in> set tr \<and> Init env = Some err \<longrightarrow>
            t = Return (Some err) \<and> (\<forall>e\<in>set tr. \<not> is_setup e))
       \<and> (\<forall>err. SOwnershipClientNew \<in> set tr \<and> client_New env = Some err \<longrightarrow>
            t = Return (Some err) \<and> (\<forall>e\<in>set tr. \<not> is_setup e))"
proof -
  let ?P = "\<lambda>e. \<not> is_setup e"
  from RunManager_shape[OF run] show ?thesis
  proof (elim disjE exE conjE)
    assume ns: "\<forall>e\<in>set tr. \<not> is_setup e"
      and oi: "SOwnershipInit \<in> set tr \<longrightarrow>
                ownership_enabled f env \<and> client_New env = None
                \<and> (\<exists>err. Init env = Some err \<and> t = Return (Some err))"
      and oc: "SOwnershipClientNew \<in> set tr \<longrightarrow>
                ownership_enabled f env
                \<and> (\<exists>err. t = Return (Some err) \<and>
                      (client_New env = Some err \<or> client_New env = None \<and> Init env = Some err))"
    from ns have tw: "takeWhile ?P tr = tr" by (simp add: takeWhile_eq_all_conv)
    have c1: "SOwnershipInit \<in> set tr \<longrightarrow>
            \<not> disableCRDOwnership f \<and> MustGetWatchNamespaces env = []
            \<and> SOwnershipInit \<in> set (takeWhile ?P tr)"
      using oi unfolding tw by (simp add: ownership_enabled_def)
    have c2: "(\<exists>e\<in>set tr. is_setup e) \<and> \<not> disableCRDOwnership f
             \<and> MustGetWatchNamespaces env = [] \<longrightarrow>
            SOwnershipInit \<in> set (takeWhile ?P tr)
            \<and> client_New env = None \<and> Init env = None"
      using ns by blast
    have c3: "\<forall>err. SOwnershipInit \<in> set tr \<and> Init env = Some err \<longrightarrow>
            t = Return (Some err) \<and> (\<forall>e\<in>set tr. \<not> is_setup e)"
      using oi ns by auto
    have c4: "\<forall>err. SOwnershipClientNew \<in> set tr \<and> client_New env = Some err \<longrightarrow>
            t = Return (Some err) \<and> (\<forall>e\<in>set tr. \<not> is_setup e)"
      using oc ns by auto
    from c1 c2 c3 c4 show ?thesis by blast
  next
    fix trB rest
    assume tr: "tr = trB @ rest"
      and nb: "\<forall>e\<in>set trB. \<not> is_setup e"
      and nr: "\<forall>e\<in>set rest. \<not> is_ownership e"
      and st: "if ownership_enabled f env
                 then SOwnershipInit \<in> set trB \<and> client_New env = None \<and> Init env = None
                 else \<forall>e\<in>set trB. \<not> is_ownership e"
    from nb have tw: "takeWhile ?P tr = trB @ takeWhile ?P rest"
      unfolding tr by (simp add: takeWhile_append2)
    have own: "is_ownership SOwnershipInit" "is_ownership SOwnershipClientNew"
      by (simp_all add: is_ownership_def)
    have inB: "e \<in> set tr \<Longrightarrow> is_ownership e \<Longrightarrow> e \<in> set trB" for e
      using nr tr by auto
    have en: "e \<in> set tr \<Longrightarrow> is_ownership e \<Longrightarrow> ownership_enabled f env" for e
      using inB[of e] st by (auto split: if_splits)
    have c1: "SOwnershipInit \<in> set tr \<longrightarrow>
            \<not> disableCRDOwnership f \<and> MustGetWatchNamespaces env = []
            \<and> SOwnershipInit \<in> set (takeWhile ?P tr)"
      using en[of SOwnershipInit] inB[of SOwnershipInit] own tw
      by (auto simp: ownership_enabled_def)
    have c2: "(\<exists>e\<in>set tr. is_setup e) \<and> \<not> disableCRDOwnership f
             \<and> MustGetWatchNamespaces env = [] \<longrightarrow>
            SOwnershipInit \<in> set (takeWhile ?P tr)
            \<and> client_New env = None \<and> Init env = None"
      using st tw by (auto simp: ownership_enabled_def)
    have c3: "\<forall>err. SOwnershipInit \<in> set tr \<and> Init env = Some err \<longrightarrow>
            t = Return (Some err) \<and> (\<forall>e\<in>set tr. \<not> is_setup e)"
      using en[of SOwnershipInit] own st by (auto split: if_splits)
    have c4: "\<forall>err. SOwnershipClientNew \<in> set tr \<and> client_New env = Some err \<longrightarrow>
            t = Return (Some err) \<and> (\<forall>e\<in>set tr. \<not> is_setup e)"
      using en[of SOwnershipClientNew] own st by (auto split: if_splits)
    from c1 c2 c3 c4 show ?thesis by blast
  qed
qed

theorem C6_witness:
  "RunManager demo_flags (demo_startup\<lparr>Init := Some (OtherErr ''crd'')\<rparr>) =
     (Return (Some (OtherErr ''crd'')),
      [SGetConfigOrDie, SNewManager \<lparr>DisableFor = []\<rparr> [], SAddReadyzCheck, SAddHealthzCheck,
       SOwnershipClientNew, SOwnershipInit])
   \<and> \<not> disableCRDOwnership demo_flags
   \<and> MustGetWatchNamespaces (demo_startup\<lparr>Init := Some (OtherErr ''crd'')\<rparr>) = []
   \<and> SOwnershipInit \<in> set (takeWhile (\<lambda>e. \<not> is_setup e)
        [SGetConfigOrDie, SNewManager \<lparr>DisableFor = []\<rparr> [], SAddReadyzCheck, SAddHealthzCheck,
         SOwnershipClientNew, SOwnershipInit])
   \<and> RunManager (demo_flags\<lparr>enableWebhooks := False\<rparr>) demo_startup =
     (Return None,
      [SGetConfigOrDie, SNewManager \<lparr>DisableFor = []\<rparr> [], SAddReadyzCheck, SAddHealthzCheck,
       SOwnershipClientNew, SOwnershipInit]
      @ map SSetupWithManager controllers
      @ [SNewForConfig, SServerVersion, SSetKubernetesVersion, SNewWithWatch,
         SNewConverterController, SAddRunnable, SStartManager])
   \<and> SOwnershipInit \<in> set (takeWhile (\<lambda>e. \<not> is_setup e)
       ([SGetConfigOrDie, SNewManager \<lparr>DisableFor = []\<rparr> [], SAddReadyzCheck, SAddHealthzCheck,
         SOwnershipClientNew, SOwnershipInit]
        @ map SSetupWithManager controllers
        @ [SNewForConfig, SServerVersion, SSetKubernetesVersion, SNewWithWatch,
           SNewConverterController, SAddRunnable, SStartManager]))
   \<and> client_New demo_startup = None \<and> Init demo_startup = None"
proof -
  let ?tr = "[SGetConfigOrDie, SNewManager \<lparr>DisableFor = []\<rparr> [], SAddReadyzCheck,
       SAddHealthzCheck, SOwnershipClientNew, SOwnershipInit]"
  let ?full = "?tr @ map SSetupWithManager controllers
      @ [SNewForConfig, SServerVersion, SSetKubernetesVersion, SNewWithWatch,
         SNewConverterController, SAddRunnable, SStartManager]"
  have m: "SOwnershipInit \<in> set ?tr" by simp
  from C6_ownership_bootstrap_before_registration[OF demo_run_init_fails] m
  have a: "\<not> disableCRDOwnership demo_flags
     \<and> MustGetWatchNamespaces (demo_startup\<lparr>Init := Some (OtherErr ''crd'')\<rparr>) = []
     \<and> SOwnershipInit \<in> set (takeWhile (\<lambda>e. \<not> is_setup e) ?tr)"
    by blast
  have s: "\<exists>e\<in>set ?full. is_setup e" by (simp add: controllers_def)
  have en: "\<not> disableCRDOwnership (demo_flags\<lparr>enableWebhooks := False\<rparr>)
      \<and> MustGetWatchNamespaces demo_startup = []"
    by (simp add: demo_flags_def demo_startup_def)
  from C6_ownership_bootstrap_before_registration[OF demo_run_succeeds] s en
  have b: "SOwnershipInit \<in> set (takeWhile (\<lambda>e. \<not> is_setup e) ?full)
      \<and> client_New demo_startup = None \<and> Init demo_startup = None"
    by blast
  from demo_run_init_fails demo_run_succeeds a b show ?thesis by blast
qed

text \<open>
  C8. With \<open>-mtls.enable\<close> set and \<open>-tls.enable\<close> not set, \<open>configureTLS\<close>
  panics. No run of \<open>RunManager\<close> with these flags creates or starts the manager, and
  a run that gets as far as building the manager's options (no \<open>-version\<close>, no
  \<open>-printDefaults\<close>, a cluster configuration, valid cache options) ends in that panic.
\<close>

theorem C8_mtls_without_tls_panics:
  assumes m: "mtlsEnable f" and t: "\<not> tlsEnable f"
  shows "configureTLS f = Inl ''-tls.enable flag must be set before using mtls.enable''
       \<and> (\<forall>env. set (snd (RunManager f env)) \<subseteq> {SPrintVersion, SPrintDefaults, SGetConfigOrDie})
       \<and> (\<forall>env co. \<not> version f \<and> \<not> printDefaults f \<and> GetConfigOrDie env
             \<and> getClientCacheOptions (disableCacheForObjects f) = Inr co \<longrightarrow>
             RunManager f env =
               (Panic ''-tls.enable flag must be set before using mtls.enable'',
                [SGetConfigOrDie]))"
proof -
  have c: "configureTLS f = Inl ''-tls.enable flag must be set before using mtls.enable''"
    using m t by (simp add: configureTLS_def)
  then have "getClientCacheOptions (disableCacheForObjects f) = Inl NotFoundErr
      \<or> configureTLS f = Inl ''-tls.enable flag must be set before using mtls.enable''"
    by blast
  then have tr: "set (snd (RunManager f env)) \<subseteq> {SPrintVersion, SPrintDefaults, SGetConfigOrDie}"
    for env by (rule RunManager_early_trace)
  have p: "RunManager f env =
               (Panic ''-tls.enable flag must be set before using mtls.enable'',
                [SGetConfigOrDie])"
    if "\<not> version f \<and> \<not> printDefaults f \<and> GetConfigOrDie env
             \<and> getClientCacheOptions (disableCacheForObjects f) = Inr co" for env co
    using that c by (simp add: RunManager_def)
  from c tr p show ?thesis by blast
qed

theorem C8_witness:
  "mtlsEnable (demo_flags\<lparr>mtlsEnable := True\<rparr>)
   \<and> \<not> tlsEnable (demo_flags\<lparr>mtlsEnable := True\<rparr>)
   \<and> \<not> version (demo_flags\<lparr>mtlsEnable := True\<rparr>)
   \<and> \<not> printDefaults (demo_flags\<lparr>mtlsEnable := True\<rparr>)
   \<and> GetConfigOrDie demo_startup
   \<and> getClientCacheOptions (disableCacheForObjects (demo_flags\<lparr>mtlsEnable := True\<rparr>))
       = Inr \<lparr>DisableFor = []\<rparr>
   \<and> RunManager (demo_flags\<lparr>mtlsEnable := True\<rparr>) demo_startup =
       (Panic ''-tls.enable flag must be set before using mtls.enable'', [SGetConfigOrDie])"
proof -
  let ?f = "demo_flags\<lparr>mtlsEnable := True\<rparr>"
  have h1: "mtlsEnable ?f" by (simp add: demo_flags_def)
  have h2: "\<not> tlsEnable ?f" by (simp add: demo_flags_def)
  have r: "\<not> version ?f \<and> \<not> printDefaults ?f \<and> GetConfigOrDie demo_startup
     \<and> getClientCacheOptions (disableCacheForObjects ?f) = Inr \<lparr>DisableFor = []\<rparr>"
    by (simp add: demo_flags_def demo_startup_def getClientCacheOptions_def)
  with C8_mtls_without_tls_panics[OF h1 h2]
  have "RunManager ?f demo_startup =
       (Panic ''-tls.enable flag must be set before using mtls.enable'', [SGetConfigOrDie])"
    by blast
  with h1 h2 r show ?thesis by blast
qed

text \<open>
  C9. The readiness check latches. For probes taken one after the other: after a check
  that succeeded the flag is non-zero and every later check succeeds with a single load,
  without waiting for the cache and without a store, leaving the flag as it is; a check
  that finds the flag non-zero succeeds at once whatever the cache would answer; and
  from the initial flag 0 the results are failures up to the first success and successes
  from then on, with exactly one store (of 1) when there is a success and none otherwise.
  For probes that overlap, in any order of their steps: a probe run alone is the check
  above; a non-zero flag stays non-zero, and a probe that has not yet waited when the
  flag is non-zero never waits and never fails; from the initial flag 0 the flag is 0 or
  1, and it is 1 as soon as one probe has returned nil.
\<close>

theorem C9_readiness_latches:
  "(\<forall>ok st st'. readyz_check ok st = (None, st') \<longrightarrow>
      0 < fst st'
      \<and> (\<forall>oks. readyz_checks oks st' =
            (replicate (length oks) None, (fst st', snd st' @ replicate (length oks) RzLoad))))
   \<and> (\<forall>ok flag tr. 0 < flag \<longrightarrow> readyz_check ok (flag, tr) = (None, (flag, tr @ [RzLoad])))
   \<and> (\<forall>oks. \<exists>k\<le>length oks.
        fst (readyz_checks oks (0, [])) =
          replicate k (Some (ErrorMsg ''controller sync cache in progress''))
          @ replicate (length oks - k) None
        \<and> length (filter is_store (snd (snd (readyz_checks oks (0, []))))) =
            (if k < length oks then 1 else 0)
        \<and> fst (snd (readyz_checks oks (0, []))) = (if k < length oks then 1 else 0))
   \<and> (\<forall>ok flag tr. run_schedule [0, 0, 0] (flag, [Idle ok]) =
        (fst (snd (readyz_check ok (flag, tr))), [Finished (fst (readyz_check ok (flag, tr)))]))
   \<and> (\<forall>sched flag ps. 0 < flag \<longrightarrow>
        0 < fst (run_schedule sched (flag, ps))
        \<and> (\<forall>j<length ps. on_fast_path (ps ! j) \<longrightarrow>
              on_fast_path (snd (run_schedule sched (flag, ps)) ! j)))
   \<and> (\<forall>sched oks.
        (fst (run_schedule sched (0, map Idle oks)) = 0
         \<or> fst (run_schedule sched (0, map Idle oks)) = 1)
        \<and> (Finished None \<in> set (snd (run_schedule sched (0, map Idle oks)))
             \<longrightarrow> fst (run_schedule sched (0, map Idle oks)) = 1))"
proof -
  have seq1: "0 < fst st'
      \<and> (\<forall>oks. readyz_checks oks st' =
            (replicate (length oks) None, (fst st', snd st' @ replicate (length oks) RzLoad)))"
    if a: "readyz_check ok st = (None, st')" for ok st st'
  proof -
    obtain flag tr where st: "st = (flag, tr)" by (cases st)
    obtain flag' tr' where st': "st' = (flag', tr')" by (cases st')
    from a st st' have p: "0 < flag'" by (auto dest: readyz_success_sets_flag)
    from readyz_checks_latched[OF p, of _ tr'] st' p show ?thesis by simp
  qed
  have seq2: "readyz_check ok (flag, tr) = (None, (flag, tr @ [RzLoad]))"
    if "0 < flag" for ok flag tr
    using that by (rule readyz_fast_path)
  have seq3: "\<exists>k\<le>length oks.
        fst (readyz_checks oks (0, [])) =
          replicate k (Some (ErrorMsg ''controller sync cache in progress''))
          @ replicate (length oks - k) None
        \<and> length (filter is_store (snd (snd (readyz_checks oks (0, []))))) =
            (if k < length oks then 1 else 0)
        \<and> fst (snd (readyz_checks oks (0, []))) = (if k < length oks then 1 else 0)"
    for oks
    using readyz_checks_from_zero[of oks "[]"] by simp
  have alone: "run_schedule [0, 0, 0] (flag, [Idle ok]) =
        (fst (snd (readyz_check ok (flag, tr))), [Finished (fst (readyz_check ok (flag, tr)))])"
    for ok flag tr
    by (rule probe_alone)
  have conc1: "0 < fst (run_schedule sched (flag, ps))
        \<and> (\<forall>j<length ps. on_fast_path (ps ! j) \<longrightarrow>
              on_fast_path (snd (run_schedule sched (flag, ps)) ! j))"
    if "0 < flag" for sched flag ps
    using that run_schedule_keeps_synced[of flag sched ps] run_schedule_fast[of flag _ ps sched]
    by blast
  have conc2: "(fst (run_schedule sched (0, map Idle oks)) = 0
         \<or> fst (run_schedule sched (0, map Idle oks)) = 1)
        \<and> (Finished None \<in> set (snd (run_schedule sched (0, map Idle oks)))
             \<longrightarrow> fst (run_schedule sched (0, map Idle oks)) = 1)"
    for sched oks
    using run_schedule_flag_values[of sched 0 "map Idle oks"]
      run_schedule_from_start[of "Finished None" sched oks]
    by auto
  from seq1 have A: "\<forall>ok st st'. readyz_check ok st = (None, st') \<longrightarrow>
      0 < fst st'
      \<and> (\<forall>oks. readyz_checks oks st' =
            (replicate (length oks) None, (fst st', snd st' @ replicate (length oks) RzLoad)))"
    by (intro allI impI)
  from seq2 have B: "\<forall>ok flag tr. 0 < flag \<longrightarrow>
      readyz_check ok (flag, tr) = (None, (flag, tr @ [RzLoad]))"
    by (intro allI impI)
  from conc1 have E: "\<forall>sched flag ps. 0 < flag \<longrightarrow>
        0 < fst (run_schedule sched (flag, ps))
        \<and> (\<forall>j<length ps. on_fast_path (ps ! j) \<longrightarrow>
              on_fast_path (snd (run_schedule sched (flag, ps)) ! j))"
    by (intro allI impI)
  show ?thesis
    by (intro conjI allI A B E seq3 alone conc2[THEN conjunct1] conc2[THEN conjunct2])
qed

theorem C9_witness:
  "readyz_check True (0, []) = (None, (1, [RzLoad, RzWaitForCacheSync, RzStore 1]))
   \<and> readyz_checks [False, True, False] (1, [RzLoad, RzWaitForCacheSync, RzStore 1]) =
       ([None, None, None],
        (1, [RzLoad, RzWaitForCacheSync, RzStore 1, RzLoad, RzLoad, RzLoad]))
   \<and> run_schedule [0, 0, 0] (0, [Idle True, Idle False]) = (1, [Finished None, Idle False])
   \<and> on_fast_path (snd (run_schedule [1, 1, 1] (1, [Finished None, Idle False])) ! 1)
   \<and> run_schedule [1, 1, 1] (1, [Finished None, Idle False]) = (1, [Finished None, Finished None])"
proof -
  note seq = C9_readiness_latches[THEN conjunct1, rule_format]
  note conc = C9_readiness_latches[THEN conjunct2, THEN conjunct2, THEN conjunct2,
      THEN conjunct2, THEN conjunct1, rule_format]
  have c: "readyz_check True (0, []) = (None, (1, [RzLoad, RzWaitForCacheSync, RzStore 1]))"
    by (simp add: readyz_check_def)
  from seq[OF c, THEN conjunct2, THEN spec, of "[False, True, False]"]
  have s: "readyz_checks [False, True, False] (1, [RzLoad, RzWaitForCacheSync, RzStore 1]) =
       ([None, None, None],
        (1, [RzLoad, RzWaitForCacheSync, RzStore 1, RzLoad, RzLoad, RzLoad]))"
    by (simp add: numeral_3_eq_3)
  have r1: "run_schedule [0, 0, 0] (0, [Idle True, Idle False]) = (1, [Finished None, Idle False])"
    by simp
  have p1: "(0 :: 32 word) < 1" by simp
  have p2: "(1 :: nat) < length [Finished None, Idle False]" by simp
  have p3: "on_fast_path ([Finished None, Idle False] ! 1)" by simp
  from conc[OF p1, THEN conjunct2, rule_format, OF p2 p3]
  have f: "on_fast_path (snd (run_schedule [1, 1, 1] (1, [Finished None, Idle False])) ! 1)" .
  have r2: "run_schedule [1, 1, 1] (1, [Finished None, Idle False]) = (1, [Finished None, Finished None])"
    by simp
  from c s r1 f r2 show ?thesis by (intro conjI)
qed

text \<open>
  C10. When the non-empty value of \<open>-controller.disableCacheFor\<close> has an entry
  between commas that is not one of namespace, pod, secret, configmap, deployment and
  statefulset, \<open>getClientCacheOptions\<close> returns the error naming such an entry,
  \<open>RunManager\<close> returns it wrapped where it gets that far, and no run with this value
  creates the manager. For the empty value the options disable the cache for nothing.
  (\<open>Join_Split\<close> and \<open>Split_entries_no_sep\<close> say that the entries are the
  pieces of the string between its commas.)
\<close>

theorem C10_unsupported_cache_object_aborts_startup:
  assumes ne: "s \<noteq> []"
    and bad: "\<exists>entry\<in>set (Split s CHR '',''). entry \<notin> supported_objects"
  shows "(\<exists>object. object \<in> set (Split s CHR '','') \<and> object \<notin> supported_objects
            \<and> getClientCacheOptions s =
                Inl (ErrorfQ ''not supported client object name='' object)
            \<and> (\<forall>f env. disableCacheForObjects f = s \<and> \<not> version f \<and> \<not> printDefaults f
                  \<and> GetConfigOrDie env \<longrightarrow>
                  RunManager f env =
                    (Return (Some (Wrapf ''cannot build cache options for manager''
                       (ErrorfQ ''not supported client object name='' object))),
                     [SGetConfigOrDie])))
       \<and> (\<forall>f env. disableCacheForObjects f = s \<longrightarrow>
            (\<forall>e\<in>set (snd (RunManager f env)). \<not> is_new_manager e))
       \<and> getClientCacheOptions [] = Inr \<lparr>DisableFor = []\<rparr>"
proof -
  from disable_objects_unsupported[OF bad, of "[]"]
  obtain object where o: "object \<in> set (Split s CHR '','')" "object \<notin> supported_objects"
    "disable_objects (Split s CHR '','') [] =
       Inl (ErrorfQ ''not supported client object name='' object)"
    by (elim exE conjE) (rule that)
  from ne o(3) have g: "getClientCacheOptions s =
      Inl (ErrorfQ ''not supported client object name='' object)"
    by (simp add: getClientCacheOptions_def)
  have run: "RunManager f env =
       (Return (Some (Wrapf ''cannot build cache options for manager''
           (ErrorfQ ''not supported client object name='' object))), [SGetConfigOrDie])"
    if "disableCacheForObjects f = s \<and> \<not> version f \<and> \<not> printDefaults f \<and> GetConfigOrDie env"
    for f env
    using that g by (simp add: RunManager_def)
  have nomgr: "\<not> is_new_manager e"
    if "disableCacheForObjects f = s" "e \<in> set (snd (RunManager f env))" for f env e
  proof -
    from that(1) g have "getClientCacheOptions (disableCacheForObjects f) =
        Inl (ErrorfQ ''not supported client object name='' object) \<or> configureTLS f = Inl []"
      by simp
    from RunManager_early_trace[OF this, of env] that(2)
    have "e \<in> {SPrintVersion, SPrintDefaults, SGetConfigOrDie}" by blast
    then show ?thesis by auto
  qed
  have empty: "getClientCacheOptions [] = Inr \<lparr>DisableFor = []\<rparr>"
    by (simp add: getClientCacheOptions_def)
  from o(1,2) g run nomgr empty show ?thesis by blast
qed

theorem C10_witness:
  "''pod,foo'' \<noteq> []
   \<and> ''foo'' \<in> set (Split ''pod,foo'' CHR '','')
   \<and> ''foo'' \<notin> supported_objects
   \<and> getClientCacheOptions ''pod,foo'' = Inl (ErrorfQ ''not supported client object name='' ''foo'')
   \<and> RunManager (demo_flags\<lparr>disableCacheForObjects := ''pod,foo''\<rparr>) demo_startup =
       (Return (Some (Wrapf ''cannot build cache options for manager''
          (ErrorfQ ''not supported client object name='' ''foo''))), [SGetConfigOrDie])
   \<and> getClientCacheOptions [] = Inr \<lparr>DisableFor = []\<rparr>"
proof -
  let ?f = "demo_flags\<lparr>disableCacheForObjects := ''pod,foo''\<rparr>"
  have h1: "''pod,foo'' \<noteq> []" by simp
  have sp: "Split ''pod,foo'' CHR '','' = [''pod'', ''foo'']" by simp
  have h2: "''foo'' \<in> set (Split ''pod,foo'' CHR '','')" by (simp only: sp) simp
  have h3: "''foo'' \<notin> supported_objects" by (simp add: supported_objects_def)
  from h2 h3 have h: "\<exists>entry\<in>set (Split ''pod,foo'' CHR '',''). entry \<notin> supported_objects"
    by blast
  have fl: "disableCacheForObjects ?f = ''pod,foo'' \<and> \<not> version ?f \<and> \<not> printDefaults ?f
      \<and> GetConfigOrDie demo_startup"
    by (simp add: demo_flags_def demo_startup_def)
  from C10_unsupported_cache_object_aborts_startup[OF h1 h]
  obtain object where o: "object \<in> set (Split ''pod,foo'' CHR '','')" "object \<notin> supported_objects"
    "getClientCacheOptions ''pod,foo'' = Inl (ErrorfQ ''not supported client object name='' object)"
    "\<forall>f env. disableCacheForObjects f = ''pod,foo'' \<and> \<not> version f \<and> \<not> printDefaults f
                  \<and> GetConfigOrDie env \<longrightarrow>
                  RunManager f env =
                    (Return (Some (Wrapf ''cannot build cache options for manager''
                       (ErrorfQ ''not supported client object name='' object))),
                     [SGetConfigOrDie])"
    and e: "getClientCacheOptions [] = Inr \<lparr>DisableFor = []\<rparr>"
    by blast
  from o(1) have "object = ''pod'' \<or> object = ''foo''" by (simp only: sp) simp
  with o(2) have obj: "object = ''foo''" by (auto simp: supported_objects_def)
  from o(4) fl have "RunManager ?f demo_startup =
                    (Return (Some (Wrapf ''cannot build cache options for manager''
                       (ErrorfQ ''not supported client object name='' object))),
                     [SGetConfigOrDie])"
    by blast
  with obj o(3) h1 h2 h3 e show ?thesis by blast
qed

end
